theory Spec2Isabelle
  imports Complex_Main "HOL-Library.AList" "HOL-Library.Sublist" "HOL-Library.Log_Nat"
begin

section \<open>The skeleton animation cache of cocos/spine/skeleton-cache.ts\<close>

text \<open>
  The file defines two classes. An \<open>AnimationCache\<close> records the frames of one
  animation of one skeleton by stepping a pose-engine instance at a fixed rate; the
  \<open>SkeletonCache\<close> registry owns one \<open>SkeletonCacheItemInfo\<close> per skeleton uuid, the
  recorders of each skeleton, and a pool of retired recorders.

  Conventions of the embedding.
  \<^item> Objects are shared and mutated through references (a recorder is reachable from the
    registry, from the pool and from \<open>curAnimationCache\<close>), so recorders and skeleton
    infos live in an explicit store and are named by their address, a natural number.
  \<^item> A field \<open>_x\<close> of the source is the record field \<open>u_x\<close>.
  \<^item> JavaScript numbers that only ever hold integers (frame indices) are \<open>int\<close>.
    Durations and elapsed time are binary64 numbers: they are kept as the real numbers
    they denote, and every division and addition the source makes on them is rounded
    to binary64 (\<open>fdiv\<close>, \<open>fadd\<close>). NaN and the infinities are left out.
  \<^item> A JavaScript array is a list of optional elements: \<open>None\<close> is a hole, and a
    read outside the array yields \<open>None\<close> (\<open>undefined\<close>).
  \<^item> String-keyed objects used as dictionaries are association lists in insertion
    order with distinct keys.
  \<^item> \<open>begin\<close>, \<open>end\<close> and \<open>includes\<close> are keywords of Isabelle:
    \<open>AnimationCache.begin\<close> and \<open>AnimationCache.end\<close> are \<open>cache_begin\<close> and
    \<open>cache_end\<close>, and \<open>String.includes\<close> is \<open>str_includes\<close>. \<open>clear\<close> is
    \<open>AnimationCache.clear\<close>, and \<open>SkeletonCache.clear\<close> is \<open>sc_clear\<close>.
  \<^item> The pose engine (\<open>spine.SkeletonInstance\<close>, the wasm heap) is outside the file.
    Of an instance only what the file itself sets is kept; what the engine renders and
    whether a step makes it call the completion handler are parameters (\<open>engine\<close>).
\<close>

subsection \<open>Binary64 arithmetic\<close>

text \<open>
  A finite binary64 number is an integer multiple of a power of two, the quantum of its
  binade: \<open>2^(e - 52)\<close> for a magnitude in \<open>[2^e, 2^(e+1))\<close>, and \<open>2^(-1074)\<close> below
  \<open>2^(-1022)\<close> (the subnormal numbers). An operation yields the exact result rounded
  to the nearest such multiple, a tie going to the even one. A result beyond the
  largest binary64 number is Infinity in the source and is not rounded to it here.
\<close>

text \<open>The nearest integer, ties to even.\<close>

definition round_even :: "real \<Rightarrow> int" where
  "round_even y =
     (let f = \<lfloor>y\<rfloor>; d = y - of_int f
      in if d < 1 / 2 then f else if 1 / 2 < d then f + 1 else if even f then f else f + 1)"

text \<open>For \<open>x > 0\<close>, the \<open>e\<close> with \<open>2^e \<le> x < 2^(e+1)\<close>.\<close>

definition binade :: "real \<Rightarrow> int" where
  "binade x = (if 1 \<le> x then bitlen \<lfloor>x\<rfloor> - 1 else - bitlen (\<lceil>1 / x\<rceil> - 1))"

definition quantum :: "real \<Rightarrow> int" where
  "quantum x = (if \<bar>x\<bar> < 2 powi (- 1022) then - 1074 else binade \<bar>x\<bar> - 52)"

definition fl64 :: "real \<Rightarrow> real" where
  "fl64 x = of_int (round_even (x / 2 powi quantum x)) * 2 powi quantum x"

text \<open>The operators \<open>/\<close> and \<open>+\<close> of the source on numbers.\<close>

definition fdiv :: "real \<Rightarrow> real \<Rightarrow> real" where
  "fdiv x y = fl64 (x / y)"

definition fadd :: "real \<Rightarrow> real \<Rightarrow> real" where
  "fadd x y = fl64 (x + y)"

subsection \<open>Constants\<close>

definition MaxCacheTime :: real where
  "MaxCacheTime = 30"

definition FrameTime :: real where
  "FrameTime = fdiv 1 60"

definition useTint_const :: bool where
  "useTint_const = True"

subsection \<open>Data\<close>

type_synonym ref = nat

record Animation =
  name :: string
  duration :: real

text \<open>\<open>spine.SkeletonData\<close>: only the animation list is read.\<close>

record SpineSkeletonData =
  animations :: "Animation list"

text \<open>
  The asset class \<open>SkeletonData\<close> is seen through \<open>getRuntimeData()\<close> only, which
  yields the spine data or null.
\<close>

type_synonym SkeletonData = "SpineSkeletonData option"

definition getRuntimeData :: "SkeletonData \<Rightarrow> SpineSkeletonData option" where
  "getRuntimeData data = data"

text \<open>
  \<open>spine.SkeletonInstance\<close>: the data it was initialised with, the tint flag, the skin,
  the animation on track 0 and the deltas it was advanced by since that was set, and
  whether it was destroyed.
\<close>

record SkeletonInstance =
  inst_data :: SpineSkeletonData
  inst_useTint :: bool
  inst_skin :: "string option"
  inst_track :: "string option"
  inst_deltas :: "real list"
  inst_destroyed :: bool

definition new_SkeletonInstance :: "SpineSkeletonData \<Rightarrow> SkeletonInstance" where
  "new_SkeletonInstance data =
     \<lparr>inst_data = data, inst_useTint = useTint_const, inst_skin = None,
      inst_track = None, inst_deltas = [], inst_destroyed = False\<rparr>"

definition inst_setSkin :: "SkeletonInstance \<Rightarrow> string \<Rightarrow> SkeletonInstance" where
  "inst_setSkin i skinName = i\<lparr>inst_skin := Some skinName\<rparr>"

text \<open>\<open>setAnimation(0, name, false)\<close>; \<open>begin\<close> may pass a null name.\<close>

definition inst_setAnimation :: "SkeletonInstance \<Rightarrow> string option \<Rightarrow> SkeletonInstance" where
  "inst_setAnimation i animationName = i\<lparr>inst_track := animationName, inst_deltas := []\<rparr>"

definition inst_updateAnimation :: "SkeletonInstance \<Rightarrow> real \<Rightarrow> SkeletonInstance" where
  "inst_updateAnimation i dt = i\<lparr>inst_deltas := inst_deltas i @ [dt]\<rparr>"

definition destroySpineInstance :: "SkeletonInstance \<Rightarrow> SkeletonInstance" where
  "destroySpineInstance i = i\<lparr>inst_destroyed := True\<rparr>"

text \<open>
  The engine as a parameter: \<open>render\<close> is the \<open>AnimationFrame\<close> that
  \<open>updateRenderData\<close> copies out of the instance (model and bone infos), and
  \<open>fired\<close> tells whether stepping made the engine call the listener's \<open>complete\<close>
  handler, and with which animation name in the track entry.
\<close>

record 'f engine =
  render :: "SkeletonInstance \<Rightarrow> 'f"
  fired :: "SkeletonInstance \<Rightarrow> string option"

text \<open>
  \<open>TrackEntryListeners\<close>: \<open>complete\<close> is null or the handler built by \<open>bind\<close>, a
  closure over the recorder that bound it; the handler is kept as that recorder.
\<close>

record TrackEntryListeners =
  complete :: "ref option"

text \<open>
  \<open>SkeletonCacheItemInfo\<close>. The skeleton is kept as the data it was built from; the
  clipper and the animation state are never read.
\<close>

record SkeletonCacheItemInfo =
  skeleton :: SpineSkeletonData
  listener :: TrackEntryListeners
  curAnimationCache :: "ref option"
  animationsCache :: "(string \<times> ref) list"

record 'f AnimationCache =
  u_instance :: SkeletonInstance
  u_skeletonData :: SpineSkeletonData
  u_privateMode :: bool
  u_curIndex :: int
  u_isCompleted :: bool
  u_maxFrameIdex :: int
  u_frameIdx :: int
  u_inited :: bool
  u_invalid :: bool
  u_enableCacheAttachedInfo :: bool
  u_skeletonInfo :: "ref option"
  u_animationName :: "string option"
  isCompleted :: bool
  totalTime :: real
  frames :: "'f option list"

text \<open>
  The store, together with the one \<open>SkeletonCache\<close> registry: its mode flag, its
  uuid-keyed skeleton infos and its pool. \<open>next_cache\<close> and \<open>next_info\<close> are the
  addresses the next \<open>new\<close> returns; \<open>next_cache\<close> is therefore also the number of
  recorders, and of pose-engine instances, constructed so far. \<open>warnings\<close> collects
  what \<open>warn\<close> printed.
\<close>

record 'f world =
  caches :: "ref \<Rightarrow> 'f AnimationCache"
  infos :: "ref \<Rightarrow> SkeletonCacheItemInfo"
  next_cache :: nat
  next_info :: nat
  warnings :: "string list"
  sc_privateMode :: bool
  sc_skeletonCache :: "(string \<times> ref) list"
  sc_animationPool :: "(string \<times> ref) list"

datatype error = TypeError | RangeError

subsection \<open>JavaScript arrays\<close>

text \<open>\<open>a[i]\<close> for an integer \<open>i\<close>: \<open>undefined\<close> outside the array and at a hole.\<close>

definition js_get :: "'a option list \<Rightarrow> int \<Rightarrow> 'a option" where
  "js_get a i = (if 0 \<le> i \<and> i < int (length a) then a ! nat i else None)"

text \<open>
  \<open>a[i] = v\<close> for an integer \<open>i\<close>: beyond the end the array grows, leaving holes.
  A negative \<open>i\<close> names a property, not an element: the elements stay as they are.
\<close>

definition js_set :: "'a option list \<Rightarrow> int \<Rightarrow> 'a \<Rightarrow> 'a option list" where
  "js_set a i v =
     (if i < 0 then a
      else if nat i < length a then a[nat i := Some v]
      else a @ replicate (nat i - length a) None @ [Some v])"

text \<open>\<open>a.length = n\<close>: truncates, or pads with holes.\<close>

definition js_set_length :: "'a option list \<Rightarrow> nat \<Rightarrow> 'a option list" where
  "js_set_length a n = take n a @ replicate (n - length a) None"

text \<open>\<open>a % b\<close> on integers: NaN (\<open>None\<close>) for \<open>b = 0\<close>, else the sign of the dividend.\<close>

definition js_rem :: "int \<Rightarrow> int \<Rightarrow> int option" where
  "js_rem a b =
     (if b = 0 then None
      else Some (if 0 \<le> a then a mod \<bar>b\<bar> else - ((- a) mod \<bar>b\<bar>)))"

subsection \<open>AnimationCache\<close>

definition new_AnimationCache :: "SpineSkeletonData \<Rightarrow> 'f AnimationCache" where
  "new_AnimationCache data =
     \<lparr>u_instance = new_SkeletonInstance data,
      u_skeletonData = data,
      u_privateMode = False,
      u_curIndex = - 1,
      u_isCompleted = False,
      u_maxFrameIdex = 0,
      u_frameIdx = - 1,
      u_inited = False,
      u_invalid = True,
      u_enableCacheAttachedInfo = False,
      u_skeletonInfo = None,
      u_animationName = None,
      isCompleted = False,
      totalTime = 0,
      frames = []\<rparr>"

definition init :: "'f AnimationCache \<Rightarrow> ref \<Rightarrow> string \<Rightarrow> 'f AnimationCache" where
  "init c skeletonInfo animationName =
     c\<lparr>u_inited := True, u_animationName := Some animationName,
       u_skeletonInfo := Some skeletonInfo\<rparr>"

definition setSkin :: "'f AnimationCache \<Rightarrow> string \<Rightarrow> 'f AnimationCache" where
  "setSkin c skinName = c\<lparr>u_instance := inst_setSkin (u_instance c) skinName\<rparr>"

text \<open>The \<open>forEach\<close> of \<open>setAnimation\<close>: the last element of that name wins.\<close>

definition find_animation :: "Animation list \<Rightarrow> string \<Rightarrow> Animation option" where
  "find_animation as animationName =
     foldl (\<lambda>animation element. if name element = animationName then Some element else animation)
       None as"

text \<open>
  \<open>setAnimation\<close> returns the recorder and the warning it printed, if any (the text of
  the warning is the animation name it complains about).
\<close>

definition setAnimation :: "'f AnimationCache \<Rightarrow> string \<Rightarrow> 'f AnimationCache \<times> string option" where
  "setAnimation c animationName =
     (case find_animation (animations (u_skeletonData c)) animationName of
        None \<Rightarrow> (c, Some animationName)
      | Some animation \<Rightarrow>
          (let m = \<lfloor>fdiv (duration animation) FrameTime\<rfloor>;
               c1 = c\<lparr>u_maxFrameIdex := m\<rparr>;
               c2 = (if u_maxFrameIdex c1 \<le> 0 then c1\<lparr>u_maxFrameIdex := 1\<rparr> else c1)
           in (c2\<lparr>u_instance := inst_setAnimation (u_instance c2) (Some animationName)\<rparr>, None)))"

definition needToUpdate :: "'f AnimationCache \<Rightarrow> int option \<Rightarrow> bool" where
  "needToUpdate c toFrameIdx =
     (\<not> isCompleted c \<and> totalTime c < MaxCacheTime
      \<and> (case toFrameIdx of None \<Rightarrow> True | Some t \<Rightarrow> u_frameIdx c < t))"

definition getFrame :: "'f AnimationCache \<Rightarrow> int \<Rightarrow> 'f option" where
  "getFrame c frameIdx =
     (case js_rem frameIdx (u_maxFrameIdex c) of
        None \<Rightarrow> None
      | Some index \<Rightarrow> js_get (frames c) index)"

definition invalidAnimationFrames :: "'f AnimationCache \<Rightarrow> 'f AnimationCache" where
  "invalidAnimationFrames c =
     c\<lparr>u_curIndex := - 1, u_isCompleted := False, frames := js_set_length (frames c) 0\<rparr>"

definition invalidAllFrame :: "'f AnimationCache \<Rightarrow> 'f AnimationCache" where
  "invalidAllFrame c = c\<lparr>isCompleted := False, u_invalid := True\<rparr>"

definition enableCacheAttachedInfo :: "'f AnimationCache \<Rightarrow> 'f AnimationCache" where
  "enableCacheAttachedInfo c =
     (if \<not> u_enableCacheAttachedInfo c
      then invalidAllFrame (c\<lparr>u_enableCacheAttachedInfo := True\<rparr>) else c)"

definition clear :: "'f AnimationCache \<Rightarrow> 'f AnimationCache" where
  "clear c = invalidAllFrame (c\<lparr>u_inited := False\<rparr>)"

definition destory :: "'f AnimationCache \<Rightarrow> 'f AnimationCache" where
  "destory c = c\<lparr>u_instance := destroySpineInstance (u_instance c)\<rparr>"

definition isInited :: "'f AnimationCache \<Rightarrow> bool" where
  "isInited c = u_inited c"

definition isInvalid :: "'f AnimationCache \<Rightarrow> bool" where
  "isInvalid c = u_invalid c"

subsection \<open>Baking\<close>

definition upd_cache :: "'f world \<Rightarrow> ref \<Rightarrow> ('f AnimationCache \<Rightarrow> 'f AnimationCache) \<Rightarrow> 'f world" where
  "upd_cache w r f = w\<lparr>caches := (caches w)(r := f (caches w r))\<rparr>"

definition upd_info :: "'f world \<Rightarrow> ref \<Rightarrow> (SkeletonCacheItemInfo \<Rightarrow> SkeletonCacheItemInfo) \<Rightarrow> 'f world" where
  "upd_info w i f = w\<lparr>infos := (infos w)(i := f (infos w i))\<rparr>"

text \<open>
  The handler \<open>completeHandle\<close> that recorder \<open>q\<close> bound, called with a track entry
  whose animation is named \<open>entryName\<close>.
\<close>

definition completeHandle :: "'f world \<Rightarrow> ref \<Rightarrow> string \<Rightarrow> 'f world" where
  "completeHandle w q entryName =
     (if u_animationName (caches w q) = Some entryName
      then upd_cache w q (\<lambda>c. c\<lparr>isCompleted := True\<rparr>) else w)"

text \<open>The engine calling \<open>listener.complete\<close> of skeleton info \<open>i\<close>, when it is bound.\<close>

definition call_complete :: "'f world \<Rightarrow> ref option \<Rightarrow> string \<Rightarrow> 'f world" where
  "call_complete w skeletonInfo entryName =
     (case skeletonInfo of
        None \<Rightarrow> w
      | Some i \<Rightarrow>
          (case complete (listener (infos w i)) of
             None \<Rightarrow> w
           | Some q \<Rightarrow> completeHandle w q entryName))"

definition bind :: "'f world \<Rightarrow> ref \<Rightarrow> ref \<Rightarrow> 'f world" where
  "bind w r i = upd_info w i (\<lambda>info. info\<lparr>listener := (listener info)\<lparr>complete := Some r\<rparr>\<rparr>)"

definition unbind :: "'f world \<Rightarrow> ref \<Rightarrow> 'f world" where
  "unbind w i = upd_info w i (\<lambda>info. info\<lparr>listener := (listener info)\<lparr>complete := None\<rparr>\<rparr>)"

text \<open>
  One pass through the body of the \<open>do ... while\<close> of \<open>updateToFrame\<close>, for the
  recorder at \<open>r\<close>: count the frame, add the tick, step the engine (which may call the
  completion handler), store the rendered frame at \<open>_frameIdx\<close>, and complete once the
  index has reached \<open>_maxFrameIdex\<close>.
\<close>

definition step :: "'f engine \<Rightarrow> 'f world \<Rightarrow> ref \<Rightarrow> 'f world" where
  "step E w r =
     (let w1 = upd_cache w r (\<lambda>c. c\<lparr>u_frameIdx := u_frameIdx c + 1\<rparr>);
          w2 = upd_cache w1 r (\<lambda>c. c\<lparr>totalTime := fadd (totalTime c) FrameTime\<rparr>);
          w3 = upd_cache w2 r (\<lambda>c. c\<lparr>u_instance := inst_updateAnimation (u_instance c) FrameTime\<rparr>);
          w4 = (case fired E (u_instance (caches w3 r)) of
                  None \<Rightarrow> w3
                | Some entryName \<Rightarrow> call_complete w3 (u_skeletonInfo (caches w3 r)) entryName);
          model = render E (u_instance (caches w4 r));
          w5 = upd_cache w4 r (\<lambda>c. c\<lparr>frames := js_set (frames c) (u_frameIdx c) model\<rparr>)
      in if u_frameIdx (caches w5 r) \<ge> u_maxFrameIdex (caches w5 r)
         then upd_cache w5 r (\<lambda>c. c\<lparr>isCompleted := True\<rparr>) else w5)"

text \<open>
  The loop \<open>do { ... } while (this.needToUpdate(frameIdx))\<close>: the body runs, then the
  test. It ends because every pass raises \<open>_frameIdx\<close> and a pass that leaves the
  recorder not completed leaves \<open>_frameIdx\<close> below \<open>_maxFrameIdex\<close>.
\<close>

function do_update :: "'f engine \<Rightarrow> 'f world \<Rightarrow> ref \<Rightarrow> int option \<Rightarrow> 'f world" where
  "do_update E w r t =
     (if needToUpdate (caches (step E w r) r) t then do_update E (step E w r) r t
      else step E w r)"
  by pat_completeness auto
termination
proof (relation "measure (\<lambda>(E, w, r, t). nat (u_maxFrameIdex (caches w r) - u_frameIdx (caches w r)))")
  fix E :: "'f engine" and w :: "'f world" and r :: ref and t :: "int option"
  let ?c = "caches w r" and ?c' = "caches (step E w r) r"
  assume "needToUpdate ?c' t"
  then have "\<not> isCompleted ?c'"
    by (simp add: needToUpdate_def)
  then have "u_frameIdx ?c' < u_maxFrameIdex ?c'"
    by (simp add: step_def Let_def upd_cache_def call_complete_def completeHandle_def
        split: option.splits if_splits)
  moreover have "u_frameIdx ?c' = u_frameIdx ?c + 1"
    by (simp add: step_def Let_def upd_cache_def call_complete_def completeHandle_def
        split: option.splits)
  moreover have "u_maxFrameIdex ?c' = u_maxFrameIdex ?c"
    by (simp add: step_def Let_def upd_cache_def call_complete_def completeHandle_def
        split: option.splits)
  ultimately show "((E, step E w r, r, t), (E, w, r, t))
      \<in> measure (\<lambda>(E, w, r, t). nat (u_maxFrameIdex (caches w r) - u_frameIdx (caches w r)))"
    by simp
qed simp

text \<open>
  The second half of \<open>begin\<close>, after the previous recorder was dealt with: point the
  engine at the animation, bind the handler, become the current recorder, reset.
  Without a skeleton info, \<open>bind(undefined)\<close> throws.
\<close>

definition begin_reset :: "'f world \<Rightarrow> ref \<Rightarrow> error + 'f world" where
  "begin_reset w r =
     (let skeletonInfo = u_skeletonInfo (caches w r);
          w1 = upd_cache w r
                 (\<lambda>c. c\<lparr>u_instance := inst_setAnimation (u_instance c) (u_animationName c)\<rparr>)
      in case skeletonInfo of
           None \<Rightarrow> Inl TypeError
         | Some i \<Rightarrow>
             (let w2 = bind w1 r i;
                  w3 = upd_info w2 i (\<lambda>info. info\<lparr>curAnimationCache := Some r\<rparr>)
              in Inr (upd_cache w3 r
                   (\<lambda>c. c\<lparr>u_frameIdx := - 1, isCompleted := False, totalTime := 0,
                          u_invalid := False\<rparr>))))"

text \<open>
  \<open>begin\<close> and \<open>updateToFrame\<close> call each other: \<open>begin\<close> on an invalid recorder
  calls \<open>updateToFrame(0)\<close> on the current recorder of its skeleton info, which begins
  that one. The store may hold a cycle of invalid recorders, on which the source
  recurses without end; the first argument bounds the depth of nested
  \<open>updateToFrame\<close> calls, and \<open>None\<close> says the bound was hit.
\<close>

fun cache_begin :: "'f engine \<Rightarrow> nat \<Rightarrow> 'f world \<Rightarrow> ref \<Rightarrow> (error + 'f world) option"
and updateToFrame ::
  "'f engine \<Rightarrow> nat \<Rightarrow> 'f world \<Rightarrow> ref \<Rightarrow> int option \<Rightarrow> (error + 'f world) option" where
  "cache_begin E n w r =
     (if \<not> u_invalid (caches w r) then Some (Inr w)
      else
        (case (case (case u_skeletonInfo (caches w r) of
                       None \<Rightarrow> None
                     | Some i \<Rightarrow> curAnimationCache (infos w i)) of
                 None \<Rightarrow> Some (Inr w)
               | Some preAnimationCache \<Rightarrow>
                   if preAnimationCache \<noteq> r then
                     (if u_privateMode (caches w r)
                      then Some (Inr (upd_cache w preAnimationCache invalidAllFrame))
                      else (case n of
                              0 \<Rightarrow> None
                            | Suc m \<Rightarrow> updateToFrame E m w preAnimationCache (Some 0)))
                   else Some (Inr w)) of
           None \<Rightarrow> None
         | Some (Inl e) \<Rightarrow> Some (Inl e)
         | Some (Inr w1) \<Rightarrow> Some (begin_reset w1 r)))"
| "updateToFrame E n w r frameIdx =
     (if \<not> u_inited (caches w r) then Some (Inr w)
      else
        (case cache_begin E n w r of
           None \<Rightarrow> None
         | Some (Inl e) \<Rightarrow> Some (Inl e)
         | Some (Inr w1) \<Rightarrow>
             Some (Inr (if \<not> needToUpdate (caches w1 r) frameIdx then w1
                        else do_update E w1 r frameIdx))))"

text \<open>\<open>end\<close>. Setting a negative array length throws a RangeError.\<close>

definition cache_end :: "'f world \<Rightarrow> ref \<Rightarrow> error + 'f world" where
  "cache_end w r =
     (if \<not> needToUpdate (caches w r) None then
        (case u_skeletonInfo (caches w r) of
           None \<Rightarrow> Inl TypeError
         | Some i \<Rightarrow>
             (let w1 = upd_info w i (\<lambda>info. info\<lparr>curAnimationCache := None\<rparr>)
              in if u_frameIdx (caches w1 r) + 1 < 0 then Inl RangeError
                 else
                   (let w2 = upd_cache w1 r
                               (\<lambda>c. c\<lparr>frames := js_set_length (frames c) (nat (u_frameIdx c + 1))\<rparr>);
                        w3 = upd_cache w2 r (\<lambda>c. c\<lparr>isCompleted := True\<rparr>)
                    in Inr (unbind w3 i))))
      else Inr w)"

subsection \<open>SkeletonCache\<close>

definition new_SkeletonCache :: "'f world \<Rightarrow> 'f world" where
  "new_SkeletonCache w =
     w\<lparr>sc_privateMode := False, sc_animationPool := [], sc_skeletonCache := []\<rparr>"

definition enablePrivateMode :: "'f world \<Rightarrow> 'f world" where
  "enablePrivateMode w = w\<lparr>sc_privateMode := True\<rparr>"

definition sc_clear :: "'f world \<Rightarrow> 'f world" where
  "sc_clear w = w\<lparr>sc_animationPool := [], sc_skeletonCache := []\<rparr>"

definition invalidAnimationCache :: "'f world \<Rightarrow> string \<Rightarrow> 'f world" where
  "invalidAnimationCache w uuid =
     (case map_of (sc_skeletonCache w) uuid of
        None \<Rightarrow> w
      | Some i \<Rightarrow>
          foldl (\<lambda>w' (aniKey, animationCache). upd_cache w' animationCache invalidAllFrame)
            w (animationsCache (infos w i)))"

text \<open>The pool key \<open>`${uuid}#${aniKey}`\<close>.\<close>

definition poolKey :: "string \<Rightarrow> string \<Rightarrow> string" where
  "poolKey uuid animationName = uuid @ ''#'' @ animationName"

text \<open>
  One pass through the \<open>for ... in animationsCache\<close> of \<open>removeSkeleton\<close>: the
  recorder goes into the pool under its key and is cleared. (A recorder is an object,
  so the \<open>continue\<close> on a falsy entry is never taken.)
\<close>

definition pool_entry :: "string \<Rightarrow> 'f world \<Rightarrow> string \<times> ref \<Rightarrow> 'f world" where
  "pool_entry uuid w = (\<lambda>(aniKey, animationCache).
     upd_cache
       (w\<lparr>sc_animationPool :=
            AList.update (poolKey uuid aniKey) animationCache (sc_animationPool w)\<rparr>)
       animationCache clear)"

definition removeSkeleton :: "'f world \<Rightarrow> string \<Rightarrow> 'f world" where
  "removeSkeleton w uuid =
     (case map_of (sc_skeletonCache w) uuid of
        None \<Rightarrow> w
      | Some i \<Rightarrow>
          (let w1 = foldl (pool_entry uuid) w (animationsCache (infos w i))
           in w1\<lparr>sc_skeletonCache := AList.delete uuid (sc_skeletonCache w1)\<rparr>))"

definition getSkeletonCache :: "'f world \<Rightarrow> string \<Rightarrow> SpineSkeletonData \<Rightarrow> ref \<times> 'f world" where
  "getSkeletonCache w uuid skeletonData =
     (case map_of (sc_skeletonCache w) uuid of
        Some skeletonInfo \<Rightarrow> (skeletonInfo, w)
      | None \<Rightarrow>
          (let i = next_info w;
               info = \<lparr>skeleton = skeletonData, listener = \<lparr>complete = None\<rparr>,
                       curAnimationCache = None, animationsCache = []\<rparr>
           in (i, w\<lparr>infos := (infos w)(i := info), next_info := Suc i,
                    sc_skeletonCache := AList.update uuid i (sc_skeletonCache w)\<rparr>)))"

definition getAnimationCache :: "'f world \<Rightarrow> string \<Rightarrow> string \<Rightarrow> ref option" where
  "getAnimationCache w uuid animationName =
     map_of (sc_animationPool w) (poolKey uuid animationName)"

text \<open>The last two statements of \<open>initAnimationCache\<close>: \<open>init\<close>, then \<open>setAnimation\<close>.\<close>

definition init_and_set :: "'f world \<Rightarrow> ref \<Rightarrow> ref \<Rightarrow> string \<Rightarrow> 'f world" where
  "init_and_set w animationCache skeletonInfo animationName =
     (let w1 = upd_cache w animationCache (\<lambda>c. init c skeletonInfo animationName);
          (c, warning) = setAnimation (caches w1 animationCache) animationName;
          w2 = w1\<lparr>caches := (caches w1)(animationCache := c)\<rparr>
      in case warning of
           None \<Rightarrow> w2
         | Some msg \<Rightarrow> w2\<lparr>warnings := warnings w2 @ [msg]\<rparr>)"

definition initAnimationCache ::
  "'f world \<Rightarrow> string \<Rightarrow> SkeletonData \<Rightarrow> string \<Rightarrow> ref option \<times> 'f world" where
  "initAnimationCache w uuid data animationName =
     (case getRuntimeData data of
        None \<Rightarrow> (None, w)
      | Some spData \<Rightarrow>
          (case map_of (sc_skeletonCache w) uuid of
             None \<Rightarrow> (None, w)
           | Some skeletonInfo \<Rightarrow>
               (case map_of (animationsCache (infos w skeletonInfo)) animationName of
                  Some animationCache \<Rightarrow>
                    (Some animationCache, init_and_set w animationCache skeletonInfo animationName)
                | None \<Rightarrow>
                    (let (animationCache, w1) =
                           (case map_of (sc_animationPool w) (poolKey uuid animationName) of
                              Some pooled \<Rightarrow>
                                (pooled,
                                 w\<lparr>sc_animationPool :=
                                     AList.delete (poolKey uuid animationName) (sc_animationPool w)\<rparr>)
                            | None \<Rightarrow>
                                (next_cache w,
                                 w\<lparr>caches := (caches w)(next_cache w :=
                                       (new_AnimationCache spData)\<lparr>u_privateMode := sc_privateMode w\<rparr>),
                                   next_cache := Suc (next_cache w)\<rparr>));
                         w2 = upd_cache w1 animationCache (\<lambda>c. init c skeletonInfo animationName);
                         w3 = upd_info w2 skeletonInfo
                                (\<lambda>info. info\<lparr>animationsCache :=
                                   AList.update animationName animationCache (animationsCache info)\<rparr>)
                     in (Some animationCache,
                         init_and_set w3 animationCache skeletonInfo animationName)))))"

text \<open>\<open>key.includes(uuid)\<close>: \<open>uuid\<close> occurs in \<open>key\<close> as a contiguous substring.\<close>

definition str_includes :: "string \<Rightarrow> string \<Rightarrow> bool" where
  "str_includes key uuid = sublist uuid key"

text \<open>
  \<open>destroyCachedAnimations(uuid?)\<close>: the argument is missing (\<open>None\<close>) or a string,
  and the empty string is falsy like the missing argument.
\<close>

definition destroy_entry :: "'f world \<Rightarrow> string \<Rightarrow> ref \<Rightarrow> 'f world" where
  "destroy_entry w key animationCache =
     (let w1 = upd_cache w animationCache destory
      in w1\<lparr>sc_animationPool := AList.delete key (sc_animationPool w1)\<rparr>)"

definition destroyCachedAnimations :: "'f world \<Rightarrow> string option \<Rightarrow> 'f world" where
  "destroyCachedAnimations w uuid =
     (case uuid of
        Some u \<Rightarrow>
          if u \<noteq> [] then
            foldl (\<lambda>w' (key, animationCache).
                     if str_includes key u then destroy_entry w' key animationCache else w')
              w (sc_animationPool w)
          else
            foldl (\<lambda>w' (key, animationCache). destroy_entry w' key animationCache)
              w (sc_animationPool w)
      | None \<Rightarrow>
          foldl (\<lambda>w' (key, animationCache). destroy_entry w' key animationCache)
            w (sc_animationPool w))"

subsection \<open>Scenarios and notions used in the statements\<close>

text \<open>
  A bake followed by \<open>end\<close>, as a consumer drives a recorder: \<open>updateToFrame\<close>, and
  when it returned normally, \<open>end\<close>.
\<close>

definition bake_and_end ::
  "'f engine \<Rightarrow> nat \<Rightarrow> 'f world \<Rightarrow> ref \<Rightarrow> int option \<Rightarrow> (error + 'f world) option" where
  "bake_and_end E n w r frameIdx =
     (case updateToFrame E n w r frameIdx of
        None \<Rightarrow> None
      | Some (Inl e) \<Rightarrow> Some (Inl e)
      | Some (Inr w1) \<Rightarrow> Some (cache_end w1 r))"

text \<open>The recorder at \<open>r\<close> after a normal return.\<close>

definition recorder_after :: "(error + 'f world) option \<Rightarrow> ref \<Rightarrow> 'f AnimationCache option" where
  "recorder_after res r = (case res of Some (Inr w) \<Rightarrow> Some (caches w r) | _ \<Rightarrow> None)"

text \<open>What \<open>begin\<close> makes of the recorder itself when it does not return at once.\<close>

definition reset_cache :: "'f AnimationCache \<Rightarrow> 'f AnimationCache" where
  "reset_cache c =
     c\<lparr>u_instance := inst_setAnimation (u_instance c) (u_animationName c),
       u_frameIdx := - 1, isCompleted := False, totalTime := 0, u_invalid := False\<rparr>"

text \<open>The elapsed time after \<open>n\<close> passes of the loop, starting from 0.\<close>

fun tick_sum :: "nat \<Rightarrow> real" where
  "tick_sum 0 = 0"
| "tick_sum (Suc n) = fadd (tick_sum n) FrameTime"

text \<open>
  The same sums on integers, in units of \<open>2^(-58)\<close>, for computing them: \<open>rnd_int\<close>
  rounds a positive integer to 53 significant bits, \<open>FrameTicks\<close> is \<open>FrameTime\<close> in
  these units, \<open>tick_int n s\<close> makes \<open>n\<close> passes from \<open>s\<close>, and \<open>ticks_below n s\<close> tells
  whether each of these \<open>n\<close> passes starts below the cap.
\<close>

definition rnd_int :: "int \<Rightarrow> int" where
  "rnd_int N =
     (let q = bitlen N - 53
      in if q \<le> 0 then N
         else (let p = 2 ^ nat q; f = N div p; r = N mod p
               in (if 2 * r < p then f else if p < 2 * r then f + 1
                   else if even f then f else f + 1) * p))"

definition FrameTicks :: int where
  "FrameTicks = 4803839602528529"

fun tick_int :: "nat \<Rightarrow> int \<Rightarrow> int" where
  "tick_int 0 s = s"
| "tick_int (Suc n) s = tick_int n (rnd_int (s + FrameTicks))"

fun ticks_below :: "nat \<Rightarrow> int \<Rightarrow> bool" where
  "ticks_below 0 s = True"
| "ticks_below (Suc n) s = (s < 30 * 2 ^ 58 \<and> ticks_below n (rnd_int (s + FrameTicks)))"

text \<open>The recorder after one pass, but for what the handler did to \<open>isCompleted\<close>.\<close>

definition stepped :: "'f engine \<Rightarrow> 'f AnimationCache \<Rightarrow> 'f AnimationCache" where
  "stepped E c =
     c\<lparr>u_frameIdx := u_frameIdx c + 1,
       totalTime := fadd (totalTime c) FrameTime,
       u_instance := inst_updateAnimation (u_instance c) FrameTime,
       frames := js_set (frames c) (u_frameIdx c + 1)
                   (render E (inst_updateAnimation (u_instance c) FrameTime))\<rparr>"

subsection \<open>A concrete store for examples\<close>

text \<open>
  The store before anything was created, an engine that renders the number of steps
  taken as the frame and never calls the completion handler, and a skeleton with three
  animations, of 1/16 s, 3/64 s and 40 s: maximum frame indices 3, 2 and 2400. A
  further animation lasts 0.15 s, that is the binary64 number nearest to 0.15.
\<close>

definition empty_info :: SkeletonCacheItemInfo where
  "empty_info =
     \<lparr>skeleton = \<lparr>animations = []\<rparr>, listener = \<lparr>complete = None\<rparr>,
      curAnimationCache = None, animationsCache = []\<rparr>"

definition world0 :: "'f world" where
  "world0 =
     \<lparr>caches = (\<lambda>_. new_AnimationCache \<lparr>animations = []\<rparr>),
      infos = (\<lambda>_. empty_info),
      next_cache = 0, next_info = 0, warnings = [],
      sc_privateMode = False, sc_skeletonCache = [], sc_animationPool = []\<rparr>"

definition quiet_engine :: "nat engine" where
  "quiet_engine = \<lparr>render = (\<lambda>i. length (inst_deltas i)), fired = (\<lambda>_. None)\<rparr>"

definition walk :: Animation where
  "walk = \<lparr>name = ''walk'', duration = 1 / 16\<rparr>"

definition run :: Animation where
  "run = \<lparr>name = ''run'', duration = 3 / 64\<rparr>"

definition crawl :: Animation where
  "crawl = \<lparr>name = ''crawl'', duration = 40\<rparr>"

definition hero :: SpineSkeletonData where
  "hero = \<lparr>animations = [walk, run, crawl]\<rparr>"

definition nod :: Animation where
  "nod = \<lparr>name = ''nod'', duration = 5404319552844595 / 2 ^ 55\<rparr>"

definition bystander :: SpineSkeletonData where
  "bystander = \<lparr>animations = [nod]\<rparr>"

text \<open>
  The registry after \<open>getSkeletonCache("hero", hero)\<close> and \<open>initAnimationCache\<close> for
  "walk", "run" and "crawl": skeleton info 0 with the recorders 0, 1 and 2, in shared
  mode; and the same made after \<open>enablePrivateMode()\<close>.
\<close>

definition with_hero :: "nat world \<Rightarrow> nat world" where
  "with_hero w =
     snd (initAnimationCache
       (snd (initAnimationCache
         (snd (initAnimationCache
           (snd (getSkeletonCache w ''hero'' hero))
           ''hero'' (Some hero) ''walk''))
         ''hero'' (Some hero) ''run''))
       ''hero'' (Some hero) ''crawl'')"

definition hero_world :: "nat world" where
  "hero_world = with_hero world0"

definition private_world :: "nat world" where
  "private_world = with_hero (enablePrivateMode world0)"

text \<open>The world of a normal return (and the empty store otherwise).\<close>

definition world_of :: "(error + nat world) option \<Rightarrow> nat world" where
  "world_of res = (case res of Some (Inr w) \<Rightarrow> w | _ \<Rightarrow> world0)"

text \<open>The shared-mode registry after \<open>updateToFrame(1)\<close> on the "walk" recorder.\<close>

definition walking_world :: "nat world" where
  "walking_world = world_of (updateToFrame quiet_engine 1 hero_world 0 (Some 1))"

text \<open>The shared-mode registry after \<open>initAnimationCache\<close> for the unknown animation "fly".\<close>

definition fly_world :: "nat world" where
  "fly_world = snd (initAnimationCache hero_world ''hero'' (Some hero) ''fly'')"


text \<open>The private-mode registry after \<open>updateToFrame(1)\<close> on the "walk" recorder.\<close>

definition private_walking_world :: "nat world" where
  "private_walking_world = world_of (updateToFrame quiet_engine 1 private_world 0 (Some 1))"

text \<open>
  The shared-mode registry after a full bake of "walk" and \<open>end\<close>; what
  \<open>initAnimationCache\<close> for "walk" returns once the skeleton was removed and its info
  made anew; and the shared-mode registry after \<open>removeSkeleton("hero")\<close>.
\<close>

definition baked_world :: "nat world" where
  "baked_world = world_of (bake_and_end quiet_engine 1 hero_world 0 None)"

definition recycled_walk :: "ref option \<times> nat world" where
  "recycled_walk =
     initAnimationCache
       (snd (getSkeletonCache (removeSkeleton baked_world ''hero'') ''hero'' hero))
       ''hero'' (Some hero) ''walk''"

definition retired_world :: "nat world" where
  "retired_world = removeSkeleton hero_world ''hero''"

definition wrap_example :: "nat AnimationCache" where
  "wrap_example =
     (new_AnimationCache hero)\<lparr>u_maxFrameIdex := 3, frames := [Some 10, Some 11, Some 12, Some 13]\<rparr>"

section \<open>Properties\<close>

subsection \<open>Binary64 rounding\<close>

lemma bitlen_pos: "0 < n \<Longrightarrow> 1 \<le> bitlen n"
  using bitlen_eq_zero_iff[of n] bitlen_nonneg[of n] by linarith

lemma binade_bounds:
  assumes "0 < x"
  shows "2 powi binade x \<le> x" and "x < 2 powi (binade x + 1)"
proof -
  have "2 powi binade x \<le> x \<and> x < 2 powi (binade x + 1)"
  proof (cases "1 \<le> x")
    case True
    let ?n = "\<lfloor>x\<rfloor>" and ?b = "bitlen \<lfloor>x\<rfloor>"
    from True have n: "0 < ?n" by simp
    from bitlen_bounds[OF n] have lo: "2 ^ nat (?b - 1) \<le> ?n" and hi: "?n < 2 ^ nat ?b"
      by simp_all
    from bitlen_pos[OF n] have b: "1 \<le> ?b" .
    have "(2::real) powi (?b - 1) = of_int (2 ^ nat (?b - 1))"
      using b by (simp add: power_int_nonneg_exp)
    also have "\<dots> \<le> of_int ?n" using lo by (simp only: of_int_le_iff)
    also have "\<dots> \<le> x" by simp
    finally have 1: "2 powi (?b - 1) \<le> x" .
    from hi have "?n + 1 \<le> 2 ^ nat ?b" by simp
    then have le: "real_of_int (?n + 1) \<le> of_int (2 ^ nat ?b)" by (simp only: of_int_le_iff)
    have "x < of_int (?n + 1)" by simp
    also note le
    also have "real_of_int (2 ^ nat ?b) = 2 powi ?b" using b by (simp add: power_int_nonneg_exp)
    finally have 2: "x < 2 powi ?b" .
    from 1 2 True show ?thesis by (simp add: binade_def)
  next
    case False
    let ?k = "\<lceil>1 / x\<rceil> - 1" and ?b = "bitlen (\<lceil>1 / x\<rceil> - 1)"
    from False assms have y: "1 < 1 / x" by simp
    then have k: "0 < ?k" by linarith
    from bitlen_bounds[OF k] have lo: "2 ^ nat (?b - 1) \<le> ?k" and hi: "?k < 2 ^ nat ?b"
      by simp_all
    from bitlen_pos[OF k] have b: "1 \<le> ?b" .
    from hi have "?k + 1 \<le> 2 ^ nat ?b" by simp
    then have le: "real_of_int (?k + 1) \<le> of_int (2 ^ nat ?b)" by (simp only: of_int_le_iff)
    have "1 / x \<le> of_int (?k + 1)" by simp
    also note le
    also have "real_of_int (2 ^ nat ?b) = 2 powi ?b" using b by (simp add: power_int_nonneg_exp)
    finally have "1 / x \<le> 2 powi ?b" .
    then have 1: "2 powi (- ?b) \<le> x"
      using assms by (simp add: power_int_minus field_simps)
    have "(2::real) powi (?b - 1) = of_int (2 ^ nat (?b - 1))"
      using b by (simp add: power_int_nonneg_exp)
    also have "\<dots> \<le> of_int ?k" using lo by (simp only: of_int_le_iff)
    also have "\<dots> < 1 / x" by linarith
    finally have "2 powi (?b - 1) < 1 / x" .
    then have "x < 1 / 2 powi (?b - 1)"
      using assms by (simp add: field_simps)
    also have "\<dots> = 2 powi (- ?b + 1)"
      by (simp add: power_int_minus_divide[symmetric])
    finally have 2: "x < 2 powi (- ?b + 1)" .
    from 1 2 False show ?thesis by (simp add: binade_def)
  qed
  then show "2 powi binade x \<le> x" and "x < 2 powi (binade x + 1)" by simp_all
qed

lemma binade_unique:
  assumes "0 < x" and "2 powi e \<le> x" and "x < 2 powi (e + 1)"
  shows "binade x = e"
proof (rule antisym)
  show "binade x \<le> e"
  proof (rule ccontr)
    assume "\<not> binade x \<le> e"
    then have "e + 1 \<le> binade x" by simp
    then have "(2::real) powi (e + 1) \<le> 2 powi binade x"
      by (intro power_int_increasing) simp_all
    with binade_bounds(1)[OF assms(1)] assms(3) show False by linarith
  qed
  show "e \<le> binade x"
  proof (rule ccontr)
    assume "\<not> e \<le> binade x"
    then have "binade x + 1 \<le> e" by simp
    then have "(2::real) powi (binade x + 1) \<le> 2 powi e"
      by (intro power_int_increasing) simp_all
    with binade_bounds(2)[OF assms(1)] assms(2) show False by linarith
  qed
qed

lemma binade_scaled:
  assumes "0 < N"
  shows "binade (of_int N / 2 ^ k) = bitlen N - 1 - int k"
proof (rule binade_unique)
  let ?b = "bitlen N"
  from bitlen_bounds[OF assms] have lo: "2 ^ nat (?b - 1) \<le> N" and hi: "N < 2 ^ nat ?b"
    by simp_all
  from bitlen_pos[OF assms] have b: "1 \<le> ?b" .
  show "0 < real_of_int N / 2 ^ k" using assms by simp
  have "(2::real) powi (?b - 1 - int k) = 2 powi (?b - 1) / 2 ^ k"
    by (simp add: power_int_diff)
  also have "\<dots> = of_int (2 ^ nat (?b - 1)) / 2 ^ k"
    using b by (simp add: power_int_nonneg_exp)
  also have "\<dots> \<le> of_int N / 2 ^ k"
    using lo by (intro divide_right_mono) (simp_all only: of_int_le_iff, simp)
  finally show "2 powi (?b - 1 - int k) \<le> real_of_int N / 2 ^ k" .
  have "real_of_int N / 2 ^ k < of_int (2 ^ nat ?b) / 2 ^ k"
    using hi by (intro divide_strict_right_mono) (simp_all only: of_int_less_iff, simp)
  also have "\<dots> = 2 powi ?b / 2 ^ k"
    using b by (simp add: power_int_nonneg_exp)
  also have "\<dots> = 2 powi (?b - 1 - int k + 1)"
    by (simp add: power_int_diff)
  finally show "real_of_int N / 2 ^ k < 2 powi (?b - 1 - int k + 1)" .
qed

lemma round_even_div:
  assumes "0 < p"
  shows "round_even (of_int N / of_int p) =
     (if 2 * (N mod p) < p then N div p else if p < 2 * (N mod p) then N div p + 1
      else if even (N div p) then N div p else N div p + 1)"
proof -
  have f: "\<lfloor>real_of_int N / of_int p\<rfloor> = N div p" by (simp add: floor_divide_of_int_eq)
  have "real_of_int N = of_int (N div p) * of_int p + of_int (N mod p)"
    by (metis of_int_add of_int_mult div_mult_mod_eq)
  then have d: "real_of_int N / of_int p - of_int (N div p) = of_int (N mod p) / of_int p"
    using assms by (simp add: field_simps)
  have lt: "(real_of_int (N mod p) / of_int p < 1 / 2) = (2 * (N mod p) < p)"
    using assms by (simp add: field_simps) linarith
  have gt: "(1 / 2 < real_of_int (N mod p) / of_int p) = (p < 2 * (N mod p))"
    using assms by (simp add: field_simps) linarith
  show ?thesis
    unfolding round_even_def Let_def f d lt gt ..
qed

lemma round_even_of_int [simp]: "round_even (of_int n) = n"
  by (simp add: round_even_def)

lemma fl64_scaled:
  assumes "0 < N"
  shows "fl64 (of_int N / 2 ^ 58) = of_int (rnd_int N) / 2 ^ 58"
proof -
  let ?x = "real_of_int N / 2 ^ 58"
  let ?q = "bitlen N - 53"
  have pos: "0 < ?x" using assms by simp
  have "(2::real) powi (- 1022) \<le> 2 powi (- 58)"
    by (intro power_int_increasing) simp_all
  also have "\<dots> = 1 / 2 ^ 58" by (simp add: power_int_minus_divide)
  also have "\<dots> \<le> ?x" using assms by (simp add: divide_right_mono)
  finally have big: "\<not> \<bar>?x\<bar> < 2 powi (- 1022)" using pos by simp
  have "binade \<bar>?x\<bar> = bitlen N - 1 - int 58"
    using binade_scaled[OF assms, of 58] pos by (simp only: abs_of_pos)
  then have qu: "quantum ?x = ?q - 58"
    unfolding quantum_def using big by simp
  have sc: "?x / 2 powi (?q - 58) = of_int N / 2 powi ?q"
    by (simp add: power_int_diff)
  show ?thesis
  proof (cases "?q \<le> 0")
    case True
    then have "real_of_int N / 2 powi ?q = of_int (N * 2 ^ nat (- ?q))"
      by (simp add: power_int_def inverse_eq_divide field_simps)
    then have "fl64 ?x = of_int (N * 2 ^ nat (- ?q)) * 2 powi (?q - 58)"
      unfolding fl64_def qu sc by (simp only: round_even_of_int)
    also have "\<dots> = of_int N * (2 powi (- ?q) * 2 powi (?q - 58))"
      using True by (simp add: power_int_nonneg_exp)
    also have "2 powi (- ?q) * 2 powi (?q - 58) = (2::real) powi (- 58)"
      by (simp add: power_int_add[symmetric])
    finally have "fl64 ?x = of_int N / 2 ^ 58" by (simp add: power_int_minus_divide)
    with True show ?thesis by (simp add: rnd_int_def)
  next
    case False
    let ?p = "(2::int) ^ nat ?q"
    have p: "0 < ?p" by simp
    have pw: "(2::real) powi ?q = of_int ?p"
      using False by (simp add: power_int_nonneg_exp)
    define R where "R = round_even (of_int N / of_int ?p)"
    have "fl64 ?x = of_int R * 2 powi (?q - 58)"
      unfolding fl64_def qu sc pw R_def ..
    also have "2 powi (?q - 58) = real_of_int ?p / 2 ^ 58"
    proof -
      have "(2::real) powi (?q - 58) = 2 powi ?q / 2 powi 58"
        by (rule power_int_diff) simp
      then show ?thesis unfolding pw by simp
    qed
    finally have fl: "fl64 ?x = of_int R * (real_of_int ?p / 2 ^ 58)" .
    have ri: "rnd_int N = R * ?p"
      unfolding R_def round_even_div[OF p] using False by (simp add: rnd_int_def Let_def)
    show ?thesis unfolding fl ri by simp
  qed
qed

text \<open>A rounding is settled by naming the binade and the nearest multiple of its quantum.\<close>

lemma round_even_eqI: "\<bar>y - of_int k\<bar> < 1 / 2 \<Longrightarrow> round_even y = k"
proof -
  assume a: "\<bar>y - of_int k\<bar> < 1 / 2"
  show ?thesis
  proof (cases "of_int k \<le> y")
    case True
    with a have "\<lfloor>y\<rfloor> = k" by (intro floor_unique) (simp_all add: abs_less_iff)
    with a True show ?thesis by (simp add: round_even_def Let_def abs_less_iff)
  next
    case False
    with a have "\<lfloor>y\<rfloor> = k - 1" by (intro floor_unique) (simp_all add: abs_less_iff)
    with a False show ?thesis by (simp add: round_even_def Let_def abs_less_iff)
  qed
qed

lemma fl64_eqI:
  assumes "2 powi e \<le> x" and "x < 2 powi (e + 1)" and "- 1022 \<le> e"
    and "\<bar>x / 2 powi (e - 52) - of_int k\<bar> < 1 / 2"
  shows "fl64 x = of_int k * 2 powi (e - 52)"
proof -
  have p: "(0::real) < 2 powi e" by simp
  with assms(1) have x: "0 < x" by linarith
  have b: "binade x = e" using x assms(1,2) by (rule binade_unique)
  have "(2::real) powi (- 1022) \<le> 2 powi e"
    using assms(3) by (intro power_int_increasing) simp_all
  with assms(1) have "\<not> \<bar>x\<bar> < 2 powi (- 1022)" using x by simp
  then have q: "quantum x = e - 52" using x b by (simp add: quantum_def)
  show ?thesis unfolding fl64_def q using round_even_eqI[OF assms(4)] by simp
qed

subsection \<open>The frame time and the quotients of the examples\<close>

lemma FrameTime_eq: "FrameTime = 4803839602528529 / 2 ^ 58"
proof -
  have "fl64 (1 / 60) = of_int 4803839602528529 * 2 powi (- 6 - 52)"
    by (rule fl64_eqI) (simp_all add: power_int_minus field_simps)
  then show ?thesis by (simp add: FrameTime_def fdiv_def power_int_minus field_simps)
qed

lemma walk_quotient: "fdiv (1 / 16) FrameTime = 15 / 4"
proof -
  have "fl64 (1 / 16 / (4803839602528529 / 2 ^ 58)) = of_int 8444249301319680 * 2 powi (1 - 52)"
    by (rule fl64_eqI) (simp_all add: power_int_minus field_simps)
  then show ?thesis by (simp add: FrameTime_eq fdiv_def power_int_minus field_simps)
qed

lemma run_quotient: "fdiv (3 / 64) FrameTime = 45 / 16"
proof -
  have "fl64 (3 / 64 / (4803839602528529 / 2 ^ 58)) = of_int 6333186975989760 * 2 powi (1 - 52)"
    by (rule fl64_eqI) (simp_all add: power_int_minus field_simps)
  then show ?thesis by (simp add: FrameTime_eq fdiv_def power_int_minus field_simps)
qed

lemma crawl_quotient: "fdiv 40 FrameTime = 2400"
proof -
  have "fl64 (40 / (4803839602528529 / 2 ^ 58)) = of_int 5277655813324800 * 2 powi (11 - 52)"
    by (rule fl64_eqI) (simp_all add: power_int_minus field_simps)
  then show ?thesis by (simp add: FrameTime_eq fdiv_def power_int_minus field_simps)
qed

text \<open>
  The binary64 number 0.15 is \<open>5404319552844595 / 2^55\<close>, a little under 0.15, and
  \<open>FrameTime\<close> a little under 1/60: their quotient, under 9 in the reals, rounds to 9.
\<close>

lemma nod_quotient: "fdiv (5404319552844595 / 2 ^ 55) FrameTime = 9"
proof -
  have "fl64 (5404319552844595 / 2 ^ 55 / (4803839602528529 / 2 ^ 58))
      = of_int 5066549580791808 * 2 powi (3 - 52)"
    by (rule fl64_eqI) (simp_all add: power_int_minus field_simps)
  then show ?thesis by (simp add: FrameTime_eq fdiv_def power_int_minus field_simps)
qed

lemma nod_exact_quotient: "\<lfloor>(5404319552844595 / 2 ^ 55) / (1 / 60 :: real)\<rfloor> = 8"
  by simp

lemmas example_quotients = walk_quotient run_quotient crawl_quotient nod_quotient

subsection \<open>The elapsed time, pass by pass\<close>

lemma FrameTime_ticks: "FrameTime = of_int FrameTicks / 2 ^ 58"
  by (simp add: FrameTime_eq FrameTicks_def)

lemma FrameTime_pos: "0 < FrameTime"
  by (simp add: FrameTime_eq)

lemma rnd_int_nonneg: "0 \<le> N \<Longrightarrow> 0 \<le> rnd_int N"
  by (simp add: rnd_int_def Let_def pos_imp_zdiv_nonneg_iff)

lemma tick_int_nonneg: "0 \<le> s \<Longrightarrow> 0 \<le> tick_int n s"
  by (induction n arbitrary: s) (simp_all add: rnd_int_nonneg FrameTicks_def)

lemma tick_int_Suc: "tick_int (Suc n) s = rnd_int (tick_int n s + FrameTicks)"
proof (induction n arbitrary: s)
  case 0
  show ?case by simp
next
  case (Suc n)
  have "tick_int (Suc (Suc n)) s = tick_int (Suc n) (rnd_int (s + FrameTicks))"
    by simp
  also have "\<dots> = rnd_int (tick_int n (rnd_int (s + FrameTicks)) + FrameTicks)"
    by (rule Suc.IH)
  also have "tick_int n (rnd_int (s + FrameTicks)) = tick_int (Suc n) s"
    by simp
  finally show ?case .
qed

lemma tick_sum_int: "tick_sum n = of_int (tick_int n 0) / 2 ^ 58"
proof (induction n)
  case 0
  show ?case by simp
next
  case (Suc n)
  have pos: "0 < tick_int n 0 + FrameTicks"
    using tick_int_nonneg[of 0 n] by (simp add: FrameTicks_def)
  have "tick_sum (Suc n) = fl64 (of_int (tick_int n 0) / 2 ^ 58 + of_int FrameTicks / 2 ^ 58)"
    by (simp only: tick_sum.simps fadd_def Suc.IH FrameTime_ticks)
  also have "of_int (tick_int n 0) / 2 ^ 58 + of_int FrameTicks / 2 ^ 58
      = (of_int (tick_int n 0 + FrameTicks) :: real) / 2 ^ 58"
    by (simp add: add_divide_distrib)
  also have "fl64 \<dots> = of_int (rnd_int (tick_int n 0 + FrameTicks)) / 2 ^ 58"
    by (rule fl64_scaled[OF pos])
  finally show ?case by (simp only: tick_int_Suc)
qed

lemma ticks_below_all: "ticks_below n s \<Longrightarrow> k < n \<Longrightarrow> tick_int k s < 30 * 2 ^ 58"
proof (induction n arbitrary: s k)
  case 0
  then show ?case by simp
next
  case (Suc n)
  show ?case
  proof (cases k)
    case 0
    with Suc.prems show ?thesis by simp
  next
    case (Suc j)
    with Suc.prems Suc.IH[of "rnd_int (s + FrameTicks)" j] show ?thesis by simp
  qed
qed

lemma ticks_below_1801: "ticks_below 1801 0"
  by code_simp

lemma tick_int_1800: "tick_int 1800 0 = 8646911284551230464"
  by code_simp

lemma tick_int_1801: "tick_int 1801 0 = 8651715124153758720"
proof -
  have "tick_int (Suc 1800) 0 = rnd_int (tick_int 1800 0 + FrameTicks)"
    by (rule tick_int_Suc)
  also have "\<dots> = 8651715124153758720"
    unfolding tick_int_1800 FrameTicks_def by code_simp
  finally show ?thesis by simp
qed

lemma tick_int_4: "tick_int 4 0 = 19215358410114116"
  by code_simp

text \<open>
  The first 1800 passes leave the elapsed time below the cap, at
  29.999999999999577 after the 1800th; the 1801st takes it beyond, to
  30.016666666666243.
\<close>

lemma tick_below_cap: "n \<le> 1800 \<Longrightarrow> tick_sum n < MaxCacheTime"
proof -
  assume "n \<le> 1800"
  then have "n < 1801" by simp
  from ticks_below_all[OF ticks_below_1801 this]
  have "real_of_int (tick_int n 0) < of_int (30 * 2 ^ 58)"
    by (simp only: of_int_less_iff)
  then show ?thesis by (simp add: tick_sum_int MaxCacheTime_def)
qed

lemma tick_sum_1800: "tick_sum 1800 = 8444249301319561 / 2 ^ 48"
  by (simp add: tick_sum_int tick_int_1800)

lemma tick_sum_1801: "tick_sum 1801 = 8448940550931405 / 2 ^ 48"
  by (simp add: tick_sum_int tick_int_1801)

lemma tick_over_cap: "MaxCacheTime \<le> tick_sum 1801"
  by (simp add: tick_sum_1801 MaxCacheTime_def)

lemma tick_sum_4: "tick_sum 4 = 4 * FrameTime"
  by (simp add: tick_sum_int tick_int_4 FrameTime_eq)

lemma tick_step: "fadd (tick_sum n) FrameTime = tick_sum (Suc n)"
  by simp

lemma tick_first: "fadd 0 FrameTime = tick_sum (Suc 0)"
  by simp

declare tick_sum.simps [simp del]

lemma tick_sum_0 [simp]: "tick_sum 0 = 0"
  by (simp add: tick_sum.simps)

text \<open>A maximum frame index takes less than the cap in frame times when it is at most 1800.\<close>

lemma cap_frames: "(real_of_int m * FrameTime < MaxCacheTime) = (m \<le> 1800)"
proof
  assume a: "real_of_int m * FrameTime < MaxCacheTime"
  show "m \<le> 1800"
  proof (rule ccontr)
    assume "\<not> m \<le> 1800"
    then have "1801 \<le> real_of_int m" by simp
    then have "1801 * FrameTime \<le> real_of_int m * FrameTime"
      using FrameTime_pos by (intro mult_right_mono) simp_all
    with a show False by (simp add: FrameTime_eq MaxCacheTime_def)
  qed
next
  assume "m \<le> 1800"
  then have "real_of_int m \<le> 1800" by simp
  then have "real_of_int m * FrameTime \<le> 1800 * FrameTime"
    using FrameTime_pos by (intro mult_right_mono) simp_all
  then show "real_of_int m * FrameTime < MaxCacheTime"
    by (simp add: FrameTime_eq MaxCacheTime_def)
qed

subsection \<open>Store updates\<close>

lemma upd_cache_simps [simp]:
  "caches (upd_cache w r f) = (caches w)(r := f (caches w r))"
  "infos (upd_cache w r f) = infos w"
  "next_cache (upd_cache w r f) = next_cache w"
  "next_info (upd_cache w r f) = next_info w"
  "warnings (upd_cache w r f) = warnings w"
  "sc_privateMode (upd_cache w r f) = sc_privateMode w"
  "sc_skeletonCache (upd_cache w r f) = sc_skeletonCache w"
  "sc_animationPool (upd_cache w r f) = sc_animationPool w"
  by (simp_all add: upd_cache_def)

lemma upd_info_simps [simp]:
  "caches (upd_info w i g) = caches w"
  "infos (upd_info w i g) = (infos w)(i := g (infos w i))"
  "next_cache (upd_info w i g) = next_cache w"
  "next_info (upd_info w i g) = next_info w"
  "warnings (upd_info w i g) = warnings w"
  "sc_privateMode (upd_info w i g) = sc_privateMode w"
  "sc_skeletonCache (upd_info w i g) = sc_skeletonCache w"
  "sc_animationPool (upd_info w i g) = sc_animationPool w"
  by (simp_all add: upd_info_def)

lemma call_complete_simps [simp]:
  "infos (call_complete w i n) = infos w"
  "next_cache (call_complete w i n) = next_cache w"
  "next_info (call_complete w i n) = next_info w"
  "warnings (call_complete w i n) = warnings w"
  "sc_privateMode (call_complete w i n) = sc_privateMode w"
  "sc_skeletonCache (call_complete w i n) = sc_skeletonCache w"
  "sc_animationPool (call_complete w i n) = sc_animationPool w"
  by (simp_all add: call_complete_def completeHandle_def split: option.splits)

text \<open>The completion handler changes nothing of a recorder but \<open>isCompleted\<close>.\<close>

lemma call_complete_cache:
  "\<exists>b. caches (call_complete w i n) q = (caches w q)\<lparr>isCompleted := b\<rparr>"
proof (cases "caches (call_complete w i n) q = caches w q")
  case True
  then have "caches (call_complete w i n) q = (caches w q)\<lparr>isCompleted := isCompleted (caches w q)\<rparr>"
    by simp
  then show ?thesis ..
next
  case False
  then have "caches (call_complete w i n) q = (caches w q)\<lparr>isCompleted := True\<rparr>"
    by (auto simp: call_complete_def completeHandle_def split: option.splits if_splits)
  then show ?thesis ..
qed

subsection \<open>One pass of the loop\<close>

lemma step_cache:
  "\<exists>b. caches (step E w r) r = (stepped E (caches w r))\<lparr>isCompleted := b\<rparr>
       \<and> (u_maxFrameIdex (caches w r) \<le> u_frameIdx (caches w r) + 1 \<longrightarrow> b)
       \<and> (fired E = (\<lambda>_. None) \<longrightarrow>
            b = (isCompleted (caches w r) \<or> u_maxFrameIdex (caches w r) \<le> u_frameIdx (caches w r) + 1))"
proof -
  let ?w3 = "upd_cache (upd_cache (upd_cache w r (\<lambda>c. c\<lparr>u_frameIdx := u_frameIdx c + 1\<rparr>)) r
                (\<lambda>c. c\<lparr>totalTime := fadd (totalTime c) FrameTime\<rparr>)) r
                (\<lambda>c. c\<lparr>u_instance := inst_updateAnimation (u_instance c) FrameTime\<rparr>)"
  let ?w4 = "case fired E (u_instance (caches ?w3 r)) of
                  None \<Rightarrow> ?w3
                | Some entryName \<Rightarrow> call_complete ?w3 (u_skeletonInfo (caches ?w3 r)) entryName"
  obtain b where b: "caches ?w4 r = (caches ?w3 r)\<lparr>isCompleted := b\<rparr>"
    and q: "fired E = (\<lambda>_. None) \<longrightarrow> b = isCompleted (caches w r)"
  proof (cases "fired E (u_instance (caches ?w3 r))")
    case None
    then have "caches ?w4 r = (caches ?w3 r)\<lparr>isCompleted := isCompleted (caches w r)\<rparr>"
      by simp
    then show ?thesis using that by blast
  next
    case (Some n)
    then have f: "fired E \<noteq> (\<lambda>_. None)" by (metis option.distinct(1))
    from Some obtain b where "caches ?w4 r = (caches ?w3 r)\<lparr>isCompleted := b\<rparr>"
      using call_complete_cache[of ?w3 "u_skeletonInfo (caches ?w3 r)" n r] by auto
    then show ?thesis using that f by blast
  qed
  show ?thesis
  proof (cases "u_maxFrameIdex (caches w r) \<le> u_frameIdx (caches w r) + 1")
    case True
    with b have "caches (step E w r) r = (stepped E (caches w r))\<lparr>isCompleted := True\<rparr>"
      by (simp add: step_def Let_def stepped_def)
    with True show ?thesis by blast
  next
    case False
    with b have "caches (step E w r) r = (stepped E (caches w r))\<lparr>isCompleted := b\<rparr>"
      by (simp add: step_def Let_def stepped_def)
    with False q show ?thesis by blast
  qed
qed

lemma step_other:
  assumes "r' \<noteq> r"
  shows "\<exists>b. caches (step E w r) r' = (caches w r')\<lparr>isCompleted := b\<rparr>
           \<and> (fired E = (\<lambda>_. None) \<longrightarrow> b = isCompleted (caches w r'))"
proof -
  let ?w3 = "upd_cache (upd_cache (upd_cache w r (\<lambda>c. c\<lparr>u_frameIdx := u_frameIdx c + 1\<rparr>)) r
                (\<lambda>c. c\<lparr>totalTime := fadd (totalTime c) FrameTime\<rparr>)) r
                (\<lambda>c. c\<lparr>u_instance := inst_updateAnimation (u_instance c) FrameTime\<rparr>)"
  let ?w4 = "case fired E (u_instance (caches ?w3 r)) of
                  None \<Rightarrow> ?w3
                | Some entryName \<Rightarrow> call_complete ?w3 (u_skeletonInfo (caches ?w3 r)) entryName"
  have s: "caches (step E w r) r' = caches ?w4 r'"
    using assms by (simp add: step_def Let_def)
  show ?thesis
  proof (cases "fired E (u_instance (caches ?w3 r))")
    case None
    with assms have "caches ?w4 r' = (caches w r')\<lparr>isCompleted := isCompleted (caches w r')\<rparr>"
      by simp
    with s show ?thesis by metis
  next
    case (Some n)
    then have f: "fired E \<noteq> (\<lambda>_. None)" by (metis option.distinct(1))
    from Some assms obtain b where "caches ?w4 r' = (caches w r')\<lparr>isCompleted := b\<rparr>"
      using call_complete_cache[of ?w3 "u_skeletonInfo (caches ?w3 r)" n r'] by auto
    with s f show ?thesis by metis
  qed
qed

lemma step_rest [simp]:
  "infos (step E w r) = infos w"
  "next_cache (step E w r) = next_cache w"
  "next_info (step E w r) = next_info w"
  "warnings (step E w r) = warnings w"
  "sc_privateMode (step E w r) = sc_privateMode w"
  "sc_skeletonCache (step E w r) = sc_skeletonCache w"
  "sc_animationPool (step E w r) = sc_animationPool w"
  by (simp_all add: step_def Let_def split: option.splits)

lemma step_fields [simp]:
  "u_frameIdx (caches (step E w r) r) = u_frameIdx (caches w r) + 1"
  "totalTime (caches (step E w r) r) = fadd (totalTime (caches w r)) FrameTime"
  "u_maxFrameIdex (caches (step E w r) r) = u_maxFrameIdex (caches w r)"
  "u_inited (caches (step E w r) r) = u_inited (caches w r)"
  "u_invalid (caches (step E w r) r) = u_invalid (caches w r)"
  "u_skeletonInfo (caches (step E w r) r) = u_skeletonInfo (caches w r)"
  "u_animationName (caches (step E w r) r) = u_animationName (caches w r)"
  "u_privateMode (caches (step E w r) r) = u_privateMode (caches w r)"
  using step_cache[of E w r] by (auto simp: stepped_def)

lemma step_frames:
  "frames (caches (step E w r) r)
     = js_set (frames (caches w r)) (u_frameIdx (caches w r) + 1)
         (render E (inst_updateAnimation (u_instance (caches w r)) FrameTime))"
  using step_cache[of E w r] by (auto simp: stepped_def)

lemma step_completes:
  "u_maxFrameIdex (caches w r) \<le> u_frameIdx (caches w r) + 1 \<Longrightarrow> isCompleted (caches (step E w r) r)"
  using step_cache[of E w r] by auto

lemma step_quiet_completed:
  "fired E = (\<lambda>_. None) \<Longrightarrow>
   isCompleted (caches (step E w r) r)
     = (isCompleted (caches w r) \<or> u_maxFrameIdex (caches w r) \<le> u_frameIdx (caches w r) + 1)"
  using step_cache[of E w r] by auto

lemma step_quiet_other:
  "fired E = (\<lambda>_. None) \<Longrightarrow> r' \<noteq> r \<Longrightarrow> caches (step E w r) r' = caches w r'"
  using step_other[of r' r E w] by auto

lemma step_quiet_cache:
  "fired E = (\<lambda>_. None) \<Longrightarrow>
   caches (step E w r) r =
     (stepped E (caches w r))\<lparr>isCompleted :=
        isCompleted (caches w r) \<or> u_maxFrameIdex (caches w r) \<le> u_frameIdx (caches w r) + 1\<rparr>"
  using step_cache[of E w r] by auto

subsection \<open>The loop\<close>

declare do_update.simps [simp del]

lemma do_update_rest [simp]:
  "infos (do_update E w r t) = infos w"
  "next_cache (do_update E w r t) = next_cache w"
  "next_info (do_update E w r t) = next_info w"
  "warnings (do_update E w r t) = warnings w"
  "sc_privateMode (do_update E w r t) = sc_privateMode w"
  "sc_skeletonCache (do_update E w r t) = sc_skeletonCache w"
  "sc_animationPool (do_update E w r t) = sc_animationPool w"
  by (induction E w r t rule: do_update.induct, subst do_update.simps, simp)+

lemma do_update_fields [simp]:
  "u_maxFrameIdex (caches (do_update E w r t) r) = u_maxFrameIdex (caches w r)"
  "u_inited (caches (do_update E w r t) r) = u_inited (caches w r)"
  "u_invalid (caches (do_update E w r t) r) = u_invalid (caches w r)"
  "u_skeletonInfo (caches (do_update E w r t) r) = u_skeletonInfo (caches w r)"
  "u_animationName (caches (do_update E w r t) r) = u_animationName (caches w r)"
  "u_privateMode (caches (do_update E w r t) r) = u_privateMode (caches w r)"
  by (induction E w r t rule: do_update.induct, subst do_update.simps, simp)+

text \<open>The loop stops only when \<open>needToUpdate\<close> fails.\<close>

lemma do_update_exit: "\<not> needToUpdate (caches (do_update E w r t) r) t"
  by (induction E w r t rule: do_update.induct, subst do_update.simps, simp)

text \<open>Elapsed time and frame index advance together: one rounded addition per frame.\<close>

lemma do_update_ticks:
  "- 1 \<le> u_frameIdx (caches w r) \<Longrightarrow>
   totalTime (caches w r) = tick_sum (nat (u_frameIdx (caches w r) + 1)) \<Longrightarrow>
   totalTime (caches (do_update E w r t) r)
     = tick_sum (nat (u_frameIdx (caches (do_update E w r t) r) + 1))"
proof (induction E w r t rule: do_update.induct)
  case (1 E w r t)
  let ?w = "step E w r"
  have f: "- 1 \<le> u_frameIdx (caches ?w r)" using 1(2) by simp
  have "nat (u_frameIdx (caches w r) + 1 + 1) = Suc (nat (u_frameIdx (caches w r) + 1))"
    using 1(2) by simp
  then have s: "totalTime (caches ?w r) = tick_sum (nat (u_frameIdx (caches ?w r) + 1))"
    using 1(3) by (simp add: tick_step)
  show ?case
  proof (cases "needToUpdate (caches ?w r) t")
    case True
    from 1(1)[OF True f s] True show ?thesis by (subst (1 2) do_update.simps) simp
  next
    case False
    with s show ?thesis by (subst (1 2) do_update.simps) simp
  qed
qed

text \<open>The loop makes at most 1801 passes from a reset recorder.\<close>

lemma do_update_bound:
  "- 1 \<le> u_frameIdx (caches w r) \<Longrightarrow>
   totalTime (caches w r) = tick_sum (nat (u_frameIdx (caches w r) + 1)) \<Longrightarrow>
   u_frameIdx (caches w r) + 1 \<le> 1800 \<Longrightarrow>
   u_frameIdx (caches (do_update E w r t) r) \<le> 1800"
proof (induction E w r t rule: do_update.induct)
  case (1 E w r t)
  let ?w = "step E w r"
  have f: "- 1 \<le> u_frameIdx (caches ?w r)" using 1(2) by simp
  have "nat (u_frameIdx (caches w r) + 1 + 1) = Suc (nat (u_frameIdx (caches w r) + 1))"
    using 1(2) by simp
  then have s: "totalTime (caches ?w r) = tick_sum (nat (u_frameIdx (caches ?w r) + 1))"
    using 1(3) by (simp add: tick_step)
  show ?case
  proof (cases "needToUpdate (caches ?w r) t")
    case True
    then have lt: "totalTime (caches ?w r) < MaxCacheTime" by (simp add: needToUpdate_def)
    have "u_frameIdx (caches ?w r) + 1 \<noteq> 1801"
    proof
      assume "u_frameIdx (caches ?w r) + 1 = 1801"
      then have "nat (u_frameIdx (caches ?w r) + 1) = 1801" by simp
      with s lt tick_over_cap show False by simp
    qed
    with 1(4) have "u_frameIdx (caches ?w r) + 1 \<le> 1800" by simp
    from 1(1)[OF True f s this] True show ?thesis by (subst do_update.simps) simp
  next
    case False
    with 1(4) show ?thesis by (subst do_update.simps) simp
  qed
qed

lemma do_update_quiet_other:
  "fired E = (\<lambda>_. None) \<Longrightarrow> r' \<noteq> r \<Longrightarrow> caches (do_update E w r t) r' = caches w r'"
  by (induction E w r t rule: do_update.induct, subst do_update.simps, simp add: step_quiet_other)

text \<open>
  Without the handler, a recorder that starts a pass below its maximum frame index
  ends the loop completed exactly at that index, or not completed and below it.
\<close>

lemma do_update_quiet_completed:
  "fired E = (\<lambda>_. None) \<Longrightarrow> \<not> isCompleted (caches w r) \<Longrightarrow>
   u_frameIdx (caches w r) < u_maxFrameIdex (caches w r) \<Longrightarrow>
   (isCompleted (caches (do_update E w r t) r) \<longrightarrow>
      u_frameIdx (caches (do_update E w r t) r) = u_maxFrameIdex (caches w r)) \<and>
   (\<not> isCompleted (caches (do_update E w r t) r) \<longrightarrow>
      u_frameIdx (caches (do_update E w r t) r) < u_maxFrameIdex (caches w r))"
proof (induction E w r t rule: do_update.induct)
  case (1 E w r t)
  let ?w = "step E w r"
  have c: "isCompleted (caches ?w r) = (u_maxFrameIdex (caches w r) \<le> u_frameIdx (caches w r) + 1)"
    using 1(2,3) by (simp add: step_quiet_completed)
  show ?case
  proof (cases "needToUpdate (caches ?w r) t")
    case True
    then have n: "\<not> isCompleted (caches ?w r)" by (simp add: needToUpdate_def)
    with c have "u_frameIdx (caches ?w r) < u_maxFrameIdex (caches ?w r)" by simp
    from 1(1)[OF True 1(2) n this] True show ?thesis
      by (subst (1 2 3 4) do_update.simps) simp
  next
    case False
    with c 1(4) show ?thesis
      by (subst (1 2 3 4) do_update.simps) auto
  qed
qed

lemma do_update_other:
  "r' \<noteq> r \<Longrightarrow> \<exists>b. caches (do_update E w r t) r' = (caches w r')\<lparr>isCompleted := b\<rparr>"
proof (induction E w r t rule: do_update.induct)
  case (1 E w r t)
  from step_other[OF 1(2), of E w] obtain b1
    where b1: "caches (step E w r) r' = (caches w r')\<lparr>isCompleted := b1\<rparr>" by blast
  show ?case
  proof (cases "needToUpdate (caches (step E w r) r) t")
    case True
    from 1(1)[OF True 1(2)] obtain b2
      where "caches (do_update E (step E w r) r t) r' = (caches (step E w r) r')\<lparr>isCompleted := b2\<rparr>"
      by blast
    with b1 True have "caches (do_update E w r t) r' = (caches w r')\<lparr>isCompleted := b2\<rparr>"
      by (subst do_update.simps) simp
    then show ?thesis ..
  next
    case False
    with b1 have "caches (do_update E w r t) r' = (caches w r')\<lparr>isCompleted := b1\<rparr>"
      by (subst do_update.simps) simp
    then show ?thesis ..
  qed
qed

lemma do_update_advances:
  "u_frameIdx (caches w r) < u_frameIdx (caches (do_update E w r t) r)"
proof (induction E w r t rule: do_update.induct)
  case (1 E w r t)
  show ?case
  proof (cases "needToUpdate (caches (step E w r) r) t")
    case True
    from 1[OF True] True show ?thesis by (subst do_update.simps) simp
  next
    case False
    then show ?thesis by (subst do_update.simps) simp
  qed
qed

lemma do_update_unfold:
  "caches (do_update E w r t) r =
     (if needToUpdate (caches (step E w r) r) t then caches (do_update E (step E w r) r t) r
      else caches (step E w r) r)"
  by (subst do_update.simps) simp

subsection \<open>begin\<close>

declare cache_begin.simps [simp del] updateToFrame.simps [simp del]

lemma begin_reset_bound:
  assumes "u_skeletonInfo (caches w r) = Some i"
  shows "\<exists>w1. begin_reset w r = Inr w1
           \<and> caches w1 r = reset_cache (caches w r)
           \<and> (\<forall>q. q \<noteq> r \<longrightarrow> caches w1 q = caches w q)
           \<and> curAnimationCache (infos w1 i) = Some r
           \<and> complete (listener (infos w1 i)) = Some r
           \<and> (\<forall>j. j \<noteq> i \<longrightarrow> infos w1 j = infos w j)
           \<and> animationsCache (infos w1 i) = animationsCache (infos w i)
           \<and> sc_animationPool w1 = sc_animationPool w
           \<and> sc_skeletonCache w1 = sc_skeletonCache w
           \<and> next_cache w1 = next_cache w"
  using assms by (simp add: begin_reset_def Let_def bind_def reset_cache_def)

lemma cache_begin_valid:
  "\<not> u_invalid (caches w r) \<Longrightarrow> cache_begin E n w r = Some (Inr w)"
  by (subst cache_begin.simps) simp

lemma cache_begin_first:
  assumes "u_invalid (caches w r)" and "u_skeletonInfo (caches w r) = Some i"
    and "curAnimationCache (infos w i) = None \<or> curAnimationCache (infos w i) = Some r"
  shows "cache_begin E n w r = Some (begin_reset w r)"
  using assms by (subst cache_begin.simps) auto

text \<open>
  Flushing the previous recorder \<open>p\<close>, which is bound to the skeleton info whose
  current recorder it is: \<open>updateToFrame\<close> returns whatever the depth bound, and
  leaves every other recorder as it was, but for \<open>isCompleted\<close>.
\<close>

lemma updateToFrame_current:
  assumes "u_skeletonInfo (caches w p) = Some i"
    and "curAnimationCache (infos w i) = Some p"
    and "r \<noteq> p"
  shows "\<exists>wp b. updateToFrame E m w p t = Some (Inr wp)
            \<and> caches wp r = (caches w r)\<lparr>isCompleted := b\<rparr>
            \<and> (fired E = (\<lambda>_. None) \<longrightarrow> caches wp r = caches w r)"
proof (cases "u_inited (caches w p)")
  case False
  then have "updateToFrame E m w p t = Some (Inr w)"
    by (subst updateToFrame.simps) simp
  moreover have "caches w r = (caches w r)\<lparr>isCompleted := isCompleted (caches w r)\<rparr>" by simp
  ultimately show ?thesis by blast
next
  case True
  obtain w1 where b: "cache_begin E m w p = Some (Inr w1)" and o: "caches w1 r = caches w r"
  proof (cases "u_invalid (caches w p)")
    case False
    then show ?thesis using that by (simp add: cache_begin_valid)
  next
    case inv: True
    from begin_reset_bound[OF assms(1)] obtain w1
      where "begin_reset w p = Inr w1" and "caches w1 r = caches w r"
      using assms(3) by blast
    moreover have "cache_begin E m w p = Some (begin_reset w p)"
      using inv assms(1,2) by (subst cache_begin.simps) simp
    ultimately show ?thesis using that by simp
  qed
  show ?thesis
  proof (cases "needToUpdate (caches w1 p) t")
    case False
    with True b have "updateToFrame E m w p t = Some (Inr w1)"
      by (subst updateToFrame.simps) simp
    moreover have "caches w1 r = (caches w r)\<lparr>isCompleted := isCompleted (caches w r)\<rparr>"
      using o by simp
    ultimately show ?thesis using o by blast
  next
    case need: True
    with True b have u: "updateToFrame E m w p t = Some (Inr (do_update E w1 p t))"
      by (subst updateToFrame.simps) simp
    from do_update_other[OF assms(3), of E w1 t] o obtain b'
      where "caches (do_update E w1 p t) r = (caches w r)\<lparr>isCompleted := b'\<rparr>" by auto
    moreover have "fired E = (\<lambda>_. None) \<longrightarrow> caches (do_update E w1 p t) r = caches w r"
      using do_update_quiet_other[of E r p w1 t] assms(3) o by simp
    ultimately show ?thesis using u by blast
  qed
qed

lemma reset_cache_completed [simp]: "reset_cache (c\<lparr>isCompleted := b\<rparr>) = reset_cache c"
  by (simp add: reset_cache_def)

text \<open>
  \<open>begin\<close> on an invalid recorder bound to skeleton info \<open>i\<close>, whose current recorder,
  if there is one, is bound to \<open>i\<close> as well: it returns with the recorder reset and
  current.
\<close>

lemma cache_begin_invalid:
  assumes "u_invalid (caches w r)"
    and "u_skeletonInfo (caches w r) = Some i"
    and "\<forall>p. curAnimationCache (infos w i) = Some p \<longrightarrow> u_skeletonInfo (caches w p) = Some i"
  shows "\<exists>w1. cache_begin E (Suc n) w r = Some (Inr w1)
           \<and> caches w1 r = reset_cache (caches w r)
           \<and> curAnimationCache (infos w1 i) = Some r
           \<and> complete (listener (infos w1 i)) = Some r"
proof -
  have fin: "\<exists>w1. Some (begin_reset w0 r) = Some (Inr w1)
           \<and> caches w1 r = reset_cache (caches w r)
           \<and> curAnimationCache (infos w1 i) = Some r
           \<and> complete (listener (infos w1 i)) = Some r"
    if "caches w0 r = (caches w r)\<lparr>isCompleted := b\<rparr>" for w0 b
  proof -
    have "u_skeletonInfo (caches w0 r) = Some i" using that assms(2) by simp
    from begin_reset_bound[OF this] that show ?thesis by auto
  qed
  have same: "caches w r = (caches w r)\<lparr>isCompleted := isCompleted (caches w r)\<rparr>" by simp
  show ?thesis
  proof (cases "curAnimationCache (infos w i)")
    case None
    then have "cache_begin E (Suc n) w r = Some (begin_reset w r)"
      using assms(1,2) by (subst cache_begin.simps) simp
    with fin[OF same] show ?thesis by simp
  next
    case (Some p)
    show ?thesis
    proof (cases "p = r")
      case True
      with Some have "cache_begin E (Suc n) w r = Some (begin_reset w r)"
        using assms(1,2) by (subst cache_begin.simps) simp
      with fin[OF same] show ?thesis by simp
    next
      case False
      show ?thesis
      proof (cases "u_privateMode (caches w r)")
        case True
        with Some False have "cache_begin E (Suc n) w r
            = Some (begin_reset (upd_cache w p invalidAllFrame) r)"
          using assms(1,2) by (subst cache_begin.simps) simp
        moreover have "caches (upd_cache w p invalidAllFrame) r
            = (caches w r)\<lparr>isCompleted := isCompleted (caches w r)\<rparr>"
          using False by simp
        ultimately show ?thesis using fin by metis
      next
        case shared: False
        from assms(3) Some have "u_skeletonInfo (caches w p) = Some i" by simp
        from updateToFrame_current[OF this Some, of r E n "Some 0"] False obtain wp b
          where u: "updateToFrame E n w p (Some 0) = Some (Inr wp)"
            and c: "caches wp r = (caches w r)\<lparr>isCompleted := b\<rparr>" by blast
        from Some False shared u have "cache_begin E (Suc n) w r = Some (begin_reset wp r)"
          using assms(1,2) by (subst cache_begin.simps) simp
        with fin[OF c] show ?thesis by simp
      qed
    qed
  qed
qed

subsection \<open>Baking an invalid recorder\<close>

lemma needToUpdate_reset:
  "needToUpdate (reset_cache c) t = (case t of None \<Rightarrow> True | Some k \<Rightarrow> 0 \<le> k)"
  by (auto simp: needToUpdate_def reset_cache_def MaxCacheTime_def split: option.splits)

lemma reset_cache_fields [simp]:
  "u_frameIdx (reset_cache c) = - 1"
  "totalTime (reset_cache c) = 0"
  "isCompleted (reset_cache c) = False"
  "u_invalid (reset_cache c) = False"
  "u_maxFrameIdex (reset_cache c) = u_maxFrameIdex c"
  "u_skeletonInfo (reset_cache c) = u_skeletonInfo c"
  "u_inited (reset_cache c) = u_inited c"
  "frames (reset_cache c) = frames c"
  by (simp_all add: reset_cache_def)

lemma updateToFrame_invalid:
  assumes "u_inited (caches w r)"
    and "u_invalid (caches w r)"
    and "u_skeletonInfo (caches w r) = Some i"
    and "\<forall>p. curAnimationCache (infos w i) = Some p \<longrightarrow> u_skeletonInfo (caches w p) = Some i"
    and "case t of None \<Rightarrow> True | Some k \<Rightarrow> 0 \<le> k"
  shows "\<exists>w1. updateToFrame E (Suc n) w r t = Some (Inr (do_update E w1 r t))
           \<and> caches w1 r = reset_cache (caches w r)"
proof -
  from cache_begin_invalid[OF assms(2,3,4), of E n] obtain w1
    where b: "cache_begin E (Suc n) w r = Some (Inr w1)"
      and c: "caches w1 r = reset_cache (caches w r)" by blast
  from c assms(5) have "needToUpdate (caches w1 r) t" by (simp add: needToUpdate_reset)
  with b assms(1) have "updateToFrame E (Suc n) w r t = Some (Inr (do_update E w1 r t))"
    by (subst updateToFrame.simps) simp
  with c show ?thesis by blast
qed

text \<open>The same when no other recorder is current, with what becomes of the rest of the store.\<close>

lemma updateToFrame_first:
  assumes "u_inited (caches w r)" and "u_invalid (caches w r)"
    and "u_skeletonInfo (caches w r) = Some i"
    and "curAnimationCache (infos w i) = None \<or> curAnimationCache (infos w i) = Some r"
    and "case t of None \<Rightarrow> True | Some k \<Rightarrow> 0 \<le> k"
  shows "\<exists>w1. updateToFrame E n w r t = Some (Inr (do_update E w1 r t))
           \<and> caches w1 r = reset_cache (caches w r)
           \<and> (\<forall>q. q \<noteq> r \<longrightarrow> caches w1 q = caches w q)
           \<and> curAnimationCache (infos w1 i) = Some r
           \<and> complete (listener (infos w1 i)) = Some r
           \<and> animationsCache (infos w1 i) = animationsCache (infos w i)
           \<and> sc_animationPool w1 = sc_animationPool w
           \<and> sc_skeletonCache w1 = sc_skeletonCache w
           \<and> next_cache w1 = next_cache w"
proof -
  from begin_reset_bound[OF assms(3)] obtain w1 where w1: "begin_reset w r = Inr w1"
    "caches w1 r = reset_cache (caches w r)"
    "\<forall>q. q \<noteq> r \<longrightarrow> caches w1 q = caches w q"
    "curAnimationCache (infos w1 i) = Some r"
    "complete (listener (infos w1 i)) = Some r"
    "animationsCache (infos w1 i) = animationsCache (infos w i)"
    "sc_animationPool w1 = sc_animationPool w"
    "sc_skeletonCache w1 = sc_skeletonCache w"
    "next_cache w1 = next_cache w" by blast
  have b: "cache_begin E n w r = Some (Inr w1)"
    using cache_begin_first[OF assms(2,3,4)] w1(1) by simp
  have "needToUpdate (caches w1 r) t" using w1(2) assms(5) by (simp add: needToUpdate_reset)
  with b assms(1) have "updateToFrame E n w r t = Some (Inr (do_update E w1 r t))"
    by (subst updateToFrame.simps) simp
  with w1 show ?thesis by blast
qed

subsection \<open>end\<close>

lemma length_js_set_length [simp]: "length (js_set_length a n) = n"
  by (simp add: js_set_length_def)

lemma cache_end_done:
  assumes "\<not> needToUpdate (caches w r) None"
    and "u_skeletonInfo (caches w r) = Some i"
    and "- 1 \<le> u_frameIdx (caches w r)"
  shows "\<exists>w'. cache_end w r = Inr w'
           \<and> caches w' r = (caches w r)\<lparr>frames := js_set_length (frames (caches w r))
                                          (nat (u_frameIdx (caches w r) + 1)),
                                        isCompleted := True\<rparr>
           \<and> curAnimationCache (infos w' i) = None
           \<and> complete (listener (infos w' i)) = None"
  using assms by (simp add: cache_end_def Let_def unbind_def)

text \<open>
  A full bake of an invalid recorder whose maximum frame index \<open>m \<ge> 0\<close> is reached
  before the cap, with an engine that never calls the handler: the loop ends completed
  at frame index \<open>m\<close>, and \<open>end\<close> leaves \<open>m + 1\<close> frames.
\<close>

lemma bake_completes:
  assumes quiet: "fired E = (\<lambda>_. None)"
    and "u_inited (caches w r)"
    and "u_invalid (caches w r)"
    and "u_skeletonInfo (caches w r) = Some i"
    and "\<forall>p. curAnimationCache (infos w i) = Some p \<longrightarrow> u_skeletonInfo (caches w p) = Some i"
    and m0: "0 \<le> u_maxFrameIdex (caches w r)"
    and cap: "real_of_int (u_maxFrameIdex (caches w r)) * FrameTime < MaxCacheTime"
    and tgt: "case t of None \<Rightarrow> True | Some k \<Rightarrow> u_maxFrameIdex (caches w r) \<le> k"
  shows "\<exists>w2. updateToFrame E (Suc n) w r t = Some (Inr w2)
           \<and> isCompleted (caches w2 r)
           \<and> u_frameIdx (caches w2 r) = u_maxFrameIdex (caches w r)
           \<and> u_maxFrameIdex (caches w2 r) = u_maxFrameIdex (caches w r)
           \<and> u_skeletonInfo (caches w2 r) = Some i
           \<and> totalTime (caches w2 r) = tick_sum (nat (u_maxFrameIdex (caches w r) + 1))"
proof -
  have t0: "case t of None \<Rightarrow> True | Some k \<Rightarrow> 0 \<le> k"
    using tgt m0 by (auto split: option.splits)
  from updateToFrame_invalid[OF assms(2-5) t0, of E n] obtain w1
    where u: "updateToFrame E (Suc n) w r t = Some (Inr (do_update E w1 r t))"
      and c: "caches w1 r = reset_cache (caches w r)" by blast
  let ?c2 = "caches (do_update E w1 r t) r"
  let ?m = "u_maxFrameIdex (caches w r)"
  have j: "(isCompleted ?c2 \<longrightarrow> u_frameIdx ?c2 = ?m) \<and> (\<not> isCompleted ?c2 \<longrightarrow> u_frameIdx ?c2 < ?m)"
    using do_update_quiet_completed[OF quiet, of w1 r t] c m0 by simp
  have time: "totalTime ?c2 = tick_sum (nat (u_frameIdx ?c2 + 1))"
    using do_update_ticks[of w1 r E t] c by simp
  from cap have m1800: "?m \<le> 1800" by (simp only: cap_frames)
  have exit: "\<not> needToUpdate ?c2 t" by (rule do_update_exit)
  have "isCompleted ?c2"
  proof (rule ccontr)
    assume n: "\<not> isCompleted ?c2"
    with j have lt: "u_frameIdx ?c2 < ?m" by simp
    with m1800 have "nat (u_frameIdx ?c2 + 1) \<le> 1800" by simp
    then have "totalTime ?c2 < MaxCacheTime"
      unfolding time by (rule tick_below_cap)
    with n exit lt tgt show False
      by (auto simp: needToUpdate_def split: option.splits)
  qed
  with j have f: "u_frameIdx ?c2 = ?m" by simp
  moreover have "u_maxFrameIdex ?c2 = ?m" "u_skeletonInfo ?c2 = Some i"
    using c assms(4) by simp_all
  moreover have "totalTime ?c2 = tick_sum (nat (?m + 1))"
    using time f by simp
  ultimately show ?thesis using u \<open>isCompleted ?c2\<close> by blast
qed

lemma bake_and_end_length:
  assumes quiet: "fired E = (\<lambda>_. None)"
    and "u_inited (caches w r)"
    and "u_invalid (caches w r)"
    and "u_skeletonInfo (caches w r) = Some i"
    and "\<forall>p. curAnimationCache (infos w i) = Some p \<longrightarrow> u_skeletonInfo (caches w p) = Some i"
    and m0: "0 \<le> u_maxFrameIdex (caches w r)"
    and cap: "real_of_int (u_maxFrameIdex (caches w r)) * FrameTime < MaxCacheTime"
    and tgt: "case t of None \<Rightarrow> True | Some k \<Rightarrow> u_maxFrameIdex (caches w r) \<le> k"
  shows "\<exists>w'. bake_and_end E (Suc n) w r t = Some (Inr w')
           \<and> length (frames (caches w' r)) = nat (u_maxFrameIdex (caches w r)) + 1
           \<and> isCompleted (caches w' r)
           \<and> u_maxFrameIdex (caches w' r) = u_maxFrameIdex (caches w r)
           \<and> totalTime (caches w' r) = tick_sum (nat (u_maxFrameIdex (caches w r) + 1))
           \<and> u_frameIdx (caches w' r) = u_maxFrameIdex (caches w r)"
proof -
  from bake_completes[OF assms, of n] obtain w2
    where u: "updateToFrame E (Suc n) w r t = Some (Inr w2)"
      and d: "isCompleted (caches w2 r)"
      and f: "u_frameIdx (caches w2 r) = u_maxFrameIdex (caches w r)"
      and m: "u_maxFrameIdex (caches w2 r) = u_maxFrameIdex (caches w r)"
      and s: "u_skeletonInfo (caches w2 r) = Some i"
      and tt: "totalTime (caches w2 r) = tick_sum (nat (u_maxFrameIdex (caches w r) + 1))"
    by blast
  from d have "\<not> needToUpdate (caches w2 r) None" by (simp add: needToUpdate_def)
  from cache_end_done[OF this s] f m0 obtain w'
    where e: "cache_end w2 r = Inr w'"
      and c: "caches w' r = (caches w2 r)\<lparr>frames := js_set_length (frames (caches w2 r))
                                          (nat (u_frameIdx (caches w2 r) + 1)),
                                        isCompleted := True\<rparr>"
    by auto
  from u e have "bake_and_end E (Suc n) w r t = Some (Inr w')"
    by (simp add: bake_and_end_def)
  moreover from c f m0 have "length (frames (caches w' r)) = nat (u_maxFrameIdex (caches w r)) + 1"
    by (simp add: nat_add_distrib)
  moreover from c m tt f have "isCompleted (caches w' r)"
    "u_maxFrameIdex (caches w' r) = u_maxFrameIdex (caches w r)"
    "totalTime (caches w' r) = tick_sum (nat (u_maxFrameIdex (caches w r) + 1))"
    "u_frameIdx (caches w' r) = u_maxFrameIdex (caches w r)"
    by simp_all
  ultimately show ?thesis by blast
qed

subsection \<open>Looking up an animation\<close>

lemma find_animation_append:
  "find_animation (as @ [a]) n = (if name a = n then Some a else find_animation as n)"
  by (simp add: find_animation_def)

lemma find_animation_None: "(find_animation as n = None) = (n \<notin> name ` set as)"
proof (induction as rule: rev_induct)
  case Nil
  then show ?case by (simp add: find_animation_def)
next
  case (snoc a as)
  then show ?case by (auto simp: find_animation_append)
qed

lemma find_animation_distinct:
  "distinct (map name as) \<Longrightarrow> a \<in> set as \<Longrightarrow> find_animation as (name a) = Some a"
proof (induction as rule: rev_induct)
  case Nil
  then show ?case by simp
next
  case (snoc b as)
  then show ?case by (auto simp: find_animation_append)
qed

lemma hero_names: "distinct (map name (animations hero))"
  by (simp add: hero_def walk_def run_def crawl_def)

lemma bystander_names: "distinct (map name (animations bystander))"
  by (simp add: bystander_def)

text \<open>
  C2. For an animation of the recorder's skeleton data (animation names being unique
  in it), \<open>setAnimation\<close> of its name leaves the maximum frame index at
  \<open>max(1, floor(D / (1/60)))\<close>, \<open>D\<close> the animation's duration and both divisions
  the binary64 divisions the source makes, with a finite quotient.
\<close>

theorem setAnimation_maxFrameIdex:
  assumes "a \<in> set (animations (u_skeletonData c))"
    and "distinct (map name (animations (u_skeletonData c)))"
    and "\<bar>fdiv (duration a) (fdiv 1 60)\<bar> < 2 ^ 1024"
  shows "u_maxFrameIdex (fst (setAnimation c (name a))) = max 1 \<lfloor>fdiv (duration a) (fdiv 1 60)\<rfloor>"
  using find_animation_distinct[OF assms(2) assms(1)]
  by (simp add: setAnimation_def Let_def FrameTime_def max_def)

text \<open>
  At the duration 0.15 the recorder gets 9 frames, where the quotient of the same two
  numbers in the reals has floor 8 (\<open>nod_exact_quotient\<close>).
\<close>

theorem setAnimation_maxFrameIdex_witness:
  "nod \<in> set (animations (u_skeletonData (new_AnimationCache bystander :: nat AnimationCache)))
   \<and> distinct (map name (animations (u_skeletonData (new_AnimationCache bystander :: nat AnimationCache))))
   \<and> \<bar>fdiv (duration nod) (fdiv 1 60)\<bar> < 2 ^ 1024
   \<and> duration nod = 5404319552844595 / 2 ^ 55
   \<and> u_maxFrameIdex (fst (setAnimation (new_AnimationCache bystander :: nat AnimationCache) ''nod'')) = 9"
proof -
  let ?c = "new_AnimationCache bystander :: nat AnimationCache"
  have d: "u_skeletonData ?c = bystander" by (simp add: new_AnimationCache_def)
  have m: "nod \<in> set (animations (u_skeletonData ?c))"
    by (simp add: new_AnimationCache_def bystander_def)
  have n: "distinct (map name (animations (u_skeletonData ?c)))"
    unfolding d by (rule bystander_names)
  have u: "duration nod = 5404319552844595 / 2 ^ 55" by (simp add: nod_def)
  have q: "fdiv (duration nod) (fdiv 1 60) = 9"
    unfolding u by (rule nod_quotient[unfolded FrameTime_def])
  have f: "\<bar>fdiv (duration nod) (fdiv 1 60)\<bar> < 2 ^ 1024" unfolding q by simp
  have "name nod = ''nod''" by (simp add: nod_def)
  with setAnimation_maxFrameIdex[OF m n f] q have
    "u_maxFrameIdex (fst (setAnimation ?c ''nod'')) = 9" by simp
  with m n f u show ?thesis by blast
qed

subsection \<open>The example store\<close>

lemma hero_find:
  "find_animation (animations hero) ''walk'' = Some walk"
  "find_animation (animations hero) ''run'' = Some run"
  "find_animation (animations hero) ''crawl'' = Some crawl"
  by (simp_all add: find_animation_def hero_def walk_def run_def crawl_def)

lemma with_hero_eval:
  assumes "sc_skeletonCache w = []" "sc_animationPool w = []" "next_cache w = 0" "next_info w = 0"
  shows "caches (with_hero w) 0 = (new_AnimationCache hero)\<lparr>u_privateMode := sc_privateMode w, u_inited := True, u_animationName := Some ''walk'', u_skeletonInfo := Some 0, u_maxFrameIdex := 3,
      u_instance := inst_setAnimation (new_SkeletonInstance hero) (Some ''walk'')\<rparr>"
   and "caches (with_hero w) (Suc 0) = (new_AnimationCache hero)\<lparr>u_privateMode := sc_privateMode w, u_inited := True, u_animationName := Some ''run'', u_skeletonInfo := Some 0, u_maxFrameIdex := 2,
      u_instance := inst_setAnimation (new_SkeletonInstance hero) (Some ''run'')\<rparr>"
   and "caches (with_hero w) 2 = (new_AnimationCache hero)\<lparr>u_privateMode := sc_privateMode w, u_inited := True, u_animationName := Some ''crawl'', u_skeletonInfo := Some 0, u_maxFrameIdex := 2400,
      u_instance := inst_setAnimation (new_SkeletonInstance hero) (Some ''crawl'')\<rparr>"
   and "infos (with_hero w) 0 = \<lparr>skeleton = hero, listener = \<lparr>complete = None\<rparr>, curAnimationCache = None,
          animationsCache = [(''walk'', 0), (''run'', 1), (''crawl'', 2)]\<rparr>"
   and "sc_skeletonCache (with_hero w) = [(''hero'', 0)]"
   and "sc_animationPool (with_hero w) = []"
   and "next_cache (with_hero w) = 3"
  using assms
  by (simp_all add: with_hero_def getSkeletonCache_def initAnimationCache_def getRuntimeData_def
      Let_def poolKey_def init_and_set_def init_def setAnimation_def hero_find
      new_AnimationCache_def walk_def run_def crawl_def example_quotients)

lemma world0_fields [simp]:
  "sc_skeletonCache world0 = []" "sc_animationPool world0 = []"
  "next_cache world0 = 0" "next_info world0 = 0" "sc_privateMode world0 = False"
  "warnings world0 = []"
  by (simp_all add: world0_def)

lemma hero_world_eval:
  "caches hero_world 0 = (new_AnimationCache hero)\<lparr>u_privateMode := False, u_inited := True, u_animationName := Some ''walk'', u_skeletonInfo := Some 0, u_maxFrameIdex := 3,
      u_instance := inst_setAnimation (new_SkeletonInstance hero) (Some ''walk'')\<rparr>"
   "caches hero_world (Suc 0) = (new_AnimationCache hero)\<lparr>u_privateMode := False, u_inited := True, u_animationName := Some ''run'', u_skeletonInfo := Some 0, u_maxFrameIdex := 2,
      u_instance := inst_setAnimation (new_SkeletonInstance hero) (Some ''run'')\<rparr>"
   "caches hero_world 2 = (new_AnimationCache hero)\<lparr>u_privateMode := False, u_inited := True, u_animationName := Some ''crawl'', u_skeletonInfo := Some 0, u_maxFrameIdex := 2400,
      u_instance := inst_setAnimation (new_SkeletonInstance hero) (Some ''crawl'')\<rparr>"
   "infos hero_world 0 = \<lparr>skeleton = hero, listener = \<lparr>complete = None\<rparr>, curAnimationCache = None,
          animationsCache = [(''walk'', 0), (''run'', 1), (''crawl'', 2)]\<rparr>"
   "sc_skeletonCache hero_world = [(''hero'', 0)]"
   "sc_animationPool hero_world = []"
   "next_cache hero_world = 3"
  using with_hero_eval[of world0] by (simp_all add: hero_world_def)

lemma quiet_engine_quiet [simp]: "fired quiet_engine = (\<lambda>_. None)" "render quiet_engine = (\<lambda>i. length (inst_deltas i))"
  by (simp_all add: quiet_engine_def)

lemma private_world_eval:
  "caches private_world 0 = (new_AnimationCache hero)\<lparr>u_privateMode := True, u_inited := True, u_animationName := Some ''walk'', u_skeletonInfo := Some 0, u_maxFrameIdex := 3,
      u_instance := inst_setAnimation (new_SkeletonInstance hero) (Some ''walk'')\<rparr>"
   "caches private_world (Suc 0) = (new_AnimationCache hero)\<lparr>u_privateMode := True, u_inited := True, u_animationName := Some ''run'', u_skeletonInfo := Some 0, u_maxFrameIdex := 2,
      u_instance := inst_setAnimation (new_SkeletonInstance hero) (Some ''run'')\<rparr>"
   "infos private_world 0 = \<lparr>skeleton = hero, listener = \<lparr>complete = None\<rparr>, curAnimationCache = None,
          animationsCache = [(''walk'', 0), (''run'', 1), (''crawl'', 2)]\<rparr>"
  using with_hero_eval[of "enablePrivateMode world0"]
  by (simp_all add: private_world_def enablePrivateMode_def)

text \<open>Baking the fresh "walk" recorder of the example registries up to frame 1.\<close>

lemma walked_eval:
  assumes "caches w 0 = (new_AnimationCache hero)\<lparr>u_privateMode := b, u_inited := True,
      u_animationName := Some ''walk'', u_skeletonInfo := Some 0, u_maxFrameIdex := 3,
      u_instance := inst_setAnimation (new_SkeletonInstance hero) (Some ''walk'')\<rparr>"
    and "curAnimationCache (infos w 0) = None"
    and "w' = world_of (updateToFrame quiet_engine 1 w 0 (Some 1))"
  shows "updateToFrame quiet_engine 1 w 0 (Some 1) = Some (Inr w')"
    and "frames (caches w' 0) = [Some 1, Some 2]"
    and "u_frameIdx (caches w' 0) = 1"
    and "isCompleted (caches w' 0) = False"
    and "u_invalid (caches w' 0) = False"
    and "u_inited (caches w' 0) = True"
    and "u_maxFrameIdex (caches w' 0) = 3"
    and "u_skeletonInfo (caches w' 0) = Some 0"
    and "curAnimationCache (infos w' 0) = Some 0"
    and "caches w' (Suc 0) = caches w (Suc 0)"
proof -
  have "case Some (1::int) of None \<Rightarrow> True | Some k \<Rightarrow> 0 \<le> k" by simp
  from updateToFrame_first[of w 0 0 "Some 1" quiet_engine 1, OF _ _ _ _ this]
  obtain w1 where u: "updateToFrame quiet_engine 1 w 0 (Some 1)
        = Some (Inr (do_update quiet_engine w1 0 (Some 1)))"
    and c: "caches w1 0 = reset_cache (caches w 0)"
    and o: "\<forall>q. q \<noteq> 0 \<longrightarrow> caches w1 q = caches w q"
    and i: "curAnimationCache (infos w1 0) = Some 0"
    by (auto simp: assms(1,2) new_AnimationCache_def)
  from u have w: "w' = do_update quiet_engine w1 0 (Some 1)"
    by (simp add: assms(3) world_of_def)
  show "updateToFrame quiet_engine 1 w 0 (Some 1) = Some (Inr w')"
    using u w by simp
  have r: "caches w' 0 =
    (reset_cache (caches w 0))\<lparr>u_frameIdx := 1, totalTime := tick_sum (Suc (Suc 0)),
        u_instance := (inst_setAnimation (new_SkeletonInstance hero) (Some ''walk''))\<lparr>inst_deltas := [FrameTime, FrameTime]\<rparr>,
        frames := [Some 1, Some 2]\<rparr>"
    unfolding w
    by (simp add: do_update_unfold step_quiet_cache c stepped_def assms(1)
        new_AnimationCache_def reset_cache_def needToUpdate_def tick_first tick_step tick_below_cap
        inst_setAnimation_def inst_updateAnimation_def new_SkeletonInstance_def js_set_def)
  show "frames (caches w' 0) = [Some 1, Some 2]"
    "u_frameIdx (caches w' 0) = 1"
    "isCompleted (caches w' 0) = False"
    "u_invalid (caches w' 0) = False"
    "u_inited (caches w' 0) = True"
    "u_maxFrameIdex (caches w' 0) = 3"
    "u_skeletonInfo (caches w' 0) = Some 0"
    by (simp_all add: r assms(1) new_AnimationCache_def reset_cache_def)
  show "curAnimationCache (infos w' 0) = Some 0"
    unfolding w using i by simp
  show "caches w' (Suc 0) = caches w (Suc 0)"
    unfolding w using o by (simp add: do_update_quiet_other)
qed

lemma walking_world_eval:
  "updateToFrame quiet_engine 1 hero_world 0 (Some 1) = Some (Inr walking_world)"
  "frames (caches walking_world 0) = [Some 1, Some 2]"
  "u_frameIdx (caches walking_world 0) = 1"
  "isCompleted (caches walking_world 0) = False"
  "u_invalid (caches walking_world 0) = False"
  "u_inited (caches walking_world 0) = True"
  "u_maxFrameIdex (caches walking_world 0) = 3"
  "u_skeletonInfo (caches walking_world 0) = Some 0"
  "curAnimationCache (infos walking_world 0) = Some 0"
  "caches walking_world (Suc 0) = caches hero_world (Suc 0)"
  using walked_eval[OF hero_world_eval(1) _ walking_world_def]
  by (simp_all add: hero_world_eval)

lemma private_walking_world_eval:
  "updateToFrame quiet_engine 1 private_world 0 (Some 1) = Some (Inr private_walking_world)"
  "frames (caches private_walking_world 0) = [Some 1, Some 2]"
  "u_frameIdx (caches private_walking_world 0) = 1"
  "isCompleted (caches private_walking_world 0) = False"
  "u_invalid (caches private_walking_world 0) = False"
  "u_inited (caches private_walking_world 0) = True"
  "u_maxFrameIdex (caches private_walking_world 0) = 3"
  "u_skeletonInfo (caches private_walking_world 0) = Some 0"
  "curAnimationCache (infos private_walking_world 0) = Some 0"
  "caches private_walking_world (Suc 0) = caches private_world (Suc 0)"
  using walked_eval[OF private_world_eval(1) _ private_walking_world_def]
  by (simp_all add: private_world_eval)

subsection \<open>A full bake\<close>

lemma recorder_after_Inr [simp]: "recorder_after (Some (Inr w)) r = Some (caches w r)"
  by (simp add: recorder_after_def)

text \<open>
  C3 (as amended). A recorder that is initialised, invalid (fresh or invalidated) and
  configured with maximum frame index \<open>m \<ge> 1\<close>, baked with no target or a target
  \<open>\<ge> m\<close> and then ended, holds \<open>m + 1\<close> frames (indices \<open>0..m\<close>), provided the cap
  does not cut the bake short (\<open>m\<close> ticks take less than \<open>MaxCacheTime\<close>) and the
  engine does not call the completion handler. The previous recorder of the skeleton
  info, if any, is bound to that same info.
\<close>

theorem full_bake_frames_length:
  assumes "fired E = (\<lambda>_. None)"
    and "u_inited (caches w r)"
    and "u_invalid (caches w r)"
    and "u_skeletonInfo (caches w r) = Some i"
    and "\<forall>p. curAnimationCache (infos w i) = Some p \<longrightarrow> u_skeletonInfo (caches w p) = Some i"
    and "1 \<le> u_maxFrameIdex (caches w r)"
    and "real_of_int (u_maxFrameIdex (caches w r)) * FrameTime < MaxCacheTime"
    and "case t of None \<Rightarrow> True | Some k \<Rightarrow> u_maxFrameIdex (caches w r) \<le> k"
  shows "\<exists>w'. bake_and_end E (Suc n) w r t = Some (Inr w')
           \<and> length (frames (caches w' r)) = nat (u_maxFrameIdex (caches w r)) + 1
           \<and> isCompleted (caches w' r)
           \<and> u_maxFrameIdex (caches w' r) = u_maxFrameIdex (caches w r)"
proof -
  from assms(6) have "0 \<le> u_maxFrameIdex (caches w r)" by simp
  from bake_and_end_length[OF assms(1-5) this assms(7,8), of n] show ?thesis by blast
qed

lemma hero_walk_hyps:
  "u_inited (caches hero_world 0)"
  "u_invalid (caches hero_world 0)"
  "u_skeletonInfo (caches hero_world 0) = Some 0"
  "\<forall>p. curAnimationCache (infos hero_world 0) = Some p \<longrightarrow> u_skeletonInfo (caches hero_world p) = Some 0"
  "u_maxFrameIdex (caches hero_world 0) = 3"
  by (simp_all add: hero_world_eval new_AnimationCache_def)

theorem full_bake_frames_length_witness:
  "fired quiet_engine = (\<lambda>_. None)
   \<and> u_inited (caches hero_world 0)
   \<and> u_invalid (caches hero_world 0)
   \<and> u_skeletonInfo (caches hero_world 0) = Some 0
   \<and> curAnimationCache (infos hero_world 0) = None
   \<and> 1 \<le> u_maxFrameIdex (caches hero_world 0)
   \<and> real_of_int (u_maxFrameIdex (caches hero_world 0)) * FrameTime < MaxCacheTime
   \<and> (\<exists>w'. bake_and_end quiet_engine (Suc 0) hero_world 0 None = Some (Inr w')
           \<and> length (frames (caches w' 0)) = 4
           \<and> isCompleted (caches w' 0)
           \<and> u_maxFrameIdex (caches w' 0) = 3)"
proof -
  have m: "1 \<le> u_maxFrameIdex (caches hero_world 0)" by (simp add: hero_walk_hyps)
  have c: "real_of_int (u_maxFrameIdex (caches hero_world 0)) * FrameTime < MaxCacheTime"
    by (simp add: hero_walk_hyps FrameTime_eq MaxCacheTime_def)
  have t: "case None :: int option of None \<Rightarrow> True | Some k \<Rightarrow> u_maxFrameIdex (caches hero_world 0) \<le> k"
    by simp
  from full_bake_frames_length[OF quiet_engine_quiet(1) hero_walk_hyps(1-4) m c t, of 0]
  have "\<exists>w'. bake_and_end quiet_engine (Suc 0) hero_world 0 None = Some (Inr w')
           \<and> length (frames (caches w' 0)) = 4
           \<and> isCompleted (caches w' 0)
           \<and> u_maxFrameIdex (caches w' 0) = 3"
    by (simp add: hero_walk_hyps)
  moreover have "curAnimationCache (infos hero_world 0) = None"
    by (simp add: hero_world_eval)
  ultimately show ?thesis
    using m c hero_walk_hyps(1-3) quiet_engine_quiet(1) by blast
qed

text \<open>
  The claim as stated, \<open>frames.length = maxFrameIndex\<close>, fails for "walk": a maximum
  frame index of 3, four frames, and four frame times elapsed, far from the cap.
\<close>

theorem full_bake_frames_length_counterexample:
  "map_option (length \<circ> frames) (recorder_after (bake_and_end quiet_engine 1 hero_world 0 None) 0) = Some 4
   \<and> map_option u_maxFrameIdex (recorder_after (bake_and_end quiet_engine 1 hero_world 0 None) 0) = Some 3
   \<and> map_option totalTime (recorder_after (bake_and_end quiet_engine 1 hero_world 0 None) 0) = Some (4 * FrameTime)
   \<and> 4 * FrameTime < MaxCacheTime"
proof -
  have m: "0 \<le> u_maxFrameIdex (caches hero_world 0)" by (simp add: hero_walk_hyps)
  have c: "real_of_int (u_maxFrameIdex (caches hero_world 0)) * FrameTime < MaxCacheTime"
    by (simp add: hero_walk_hyps FrameTime_eq MaxCacheTime_def)
  have t: "case None :: int option of None \<Rightarrow> True | Some k \<Rightarrow> u_maxFrameIdex (caches hero_world 0) \<le> k"
    by simp
  from bake_and_end_length[OF quiet_engine_quiet(1) hero_walk_hyps(1-4) m c t, of 0]
  obtain w' where "bake_and_end quiet_engine 1 hero_world 0 None = Some (Inr w')"
    and "length (frames (caches w' 0)) = 4"
    and "u_maxFrameIdex (caches w' 0) = 3"
    and "totalTime (caches w' 0) = 4 * FrameTime"
    by (auto simp: hero_walk_hyps tick_sum_4)
  moreover have "4 * FrameTime < MaxCacheTime" by (simp add: FrameTime_eq MaxCacheTime_def)
  ultimately show ?thesis by simp
qed

subsection \<open>An unknown animation\<close>

lemma hero_world_more:
  "sc_privateMode hero_world = False" "warnings hero_world = []"
  by (simp_all add: hero_world_def with_hero_def getSkeletonCache_def initAnimationCache_def getRuntimeData_def
      Let_def poolKey_def init_and_set_def init_def setAnimation_def hero_find
      new_AnimationCache_def walk_def run_def crawl_def example_quotients)

lemma hero_fly: "find_animation (animations hero) ''fly'' = None"
  by (simp add: find_animation_def hero_def walk_def run_def crawl_def)

lemma fly_world_eval:
  "caches fly_world 3 = (new_AnimationCache hero)\<lparr>u_inited := True, u_animationName := Some ''fly'', u_skeletonInfo := Some 0\<rparr>"
  "curAnimationCache (infos fly_world 0) = None"
  "warnings fly_world = [''fly'']"
  by (simp_all add: fly_world_def initAnimationCache_def getRuntimeData_def hero_world_eval hero_world_more
      Let_def poolKey_def init_and_set_def init_def setAnimation_def hero_fly new_AnimationCache_def)

lemma setAnimation_unknown:
  "n \<notin> name ` set (animations (u_skeletonData c)) \<Longrightarrow> setAnimation c n = (c, Some n)"
  by (simp add: setAnimation_def find_animation_None[symmetric])

lemma length_js_set: "0 \<le> i \<Longrightarrow> length (js_set a i v) = max (length a) (nat i + 1)"
  by (auto simp: js_set_def)

lemma js_set_first: "js_set_length (js_set a 0 v) (Suc 0) = [Some v]"
  by (cases a) (simp_all add: js_set_def js_set_length_def)

text \<open>
  Baking an invalid recorder whose maximum frame index is 0: the first pass completes
  it, whatever the engine does, and \<open>end\<close> leaves one frame, the one rendered after
  the first step of the restarted instance.
\<close>

lemma bake_unconfigured:
  assumes "u_maxFrameIdex (caches w r) = 0"
    and "u_inited (caches w r)"
    and "u_invalid (caches w r)"
    and "u_skeletonInfo (caches w r) = Some i"
    and "\<forall>p. curAnimationCache (infos w i) = Some p \<longrightarrow> u_skeletonInfo (caches w p) = Some i"
    and "case t of None \<Rightarrow> True | Some k \<Rightarrow> 0 \<le> k"
  shows "\<exists>w'. bake_and_end E (Suc n) w r t = Some (Inr w')
           \<and> frames (caches w' r) = [Some (render E (inst_updateAnimation (inst_setAnimation (u_instance (caches w r)) (u_animationName (caches w r))) FrameTime))]
           \<and> isCompleted (caches w' r)
           \<and> u_frameIdx (caches w' r) = 0"
proof -
  from updateToFrame_invalid[OF assms(2-6), of E n] obtain w1
    where u: "updateToFrame E (Suc n) w r t = Some (Inr (do_update E w1 r t))"
      and c: "caches w1 r = reset_cache (caches w r)" by blast
  have d: "isCompleted (caches (step E w1 r) r)"
    using c assms(1) by (intro step_completes) simp
  then have s: "do_update E w1 r t = step E w1 r"
    by (subst do_update.simps) (simp add: needToUpdate_def)
  let ?w2 = "step E w1 r"
  have f: "u_frameIdx (caches ?w2 r) = 0" "u_skeletonInfo (caches ?w2 r) = Some i"
    using c assms(4) by simp_all
  have g: "frames (caches ?w2 r) = js_set (frames (caches w r)) 0 (render E (inst_updateAnimation (inst_setAnimation (u_instance (caches w r)) (u_animationName (caches w r))) FrameTime))"
    by (simp add: step_frames c reset_cache_def)
  from d have "\<not> needToUpdate (caches ?w2 r) None" by (simp add: needToUpdate_def)
  from cache_end_done[OF this f(2)] f(1) obtain w'
    where e: "cache_end ?w2 r = Inr w'"
      and c': "caches w' r = (caches ?w2 r)\<lparr>frames := js_set_length (frames (caches ?w2 r))
                                          (nat (u_frameIdx (caches ?w2 r) + 1)),
                                        isCompleted := True\<rparr>"
    by auto
  from u s e have "bake_and_end E (Suc n) w r t = Some (Inr w')"
    by (simp add: bake_and_end_def)
  moreover have "frames (caches w' r) = [Some (render E (inst_updateAnimation (inst_setAnimation (u_instance (caches w r)) (u_animationName (caches w r))) FrameTime))]"
  proof -
    have k: "nat (u_frameIdx (caches ?w2 r) + 1) = Suc 0" unfolding f(1) by simp
    have "frames (caches w' r) = js_set_length (frames (caches ?w2 r)) (Suc 0)"
      unfolding c' k by simp
    then show ?thesis unfolding g js_set_first .
  qed
  moreover from c' f have "isCompleted (caches w' r)" "u_frameIdx (caches w' r) = 0"
    by simp_all
  ultimately show ?thesis by blast
qed

text \<open>
  C7 (as amended). For an animation name unknown to the recorder's skeleton data,
  \<open>setAnimation\<close> warns and leaves the recorder as it was. On a recorder whose maximum
  frame index is still 0, a bake (no target, or a target \<open>\<ge> 0\<close>) followed by \<open>end\<close>
  then returns normally and records exactly one frame, not zero frames: its frames
  array holds frame 0 alone, the frame the engine renders after the first step of the
  instance restarted on the recorder's animation name.
\<close>

theorem unknown_animation_bakes_one_frame:
  assumes "n \<notin> name ` set (animations (u_skeletonData (caches w r)))"
    and "u_maxFrameIdex (caches w r) = 0"
    and "u_inited (caches w r)"
    and "u_invalid (caches w r)"
    and "u_skeletonInfo (caches w r) = Some i"
    and "\<forall>p. curAnimationCache (infos w i) = Some p \<longrightarrow> u_skeletonInfo (caches w p) = Some i"
    and "case t of None \<Rightarrow> True | Some k \<Rightarrow> 0 \<le> k"
  shows "setAnimation (caches w r) n = (caches w r, Some n)
       \<and> (\<exists>w'. bake_and_end E (Suc m) w r t = Some (Inr w')
              \<and> frames (caches w' r) = [Some (render E (inst_updateAnimation (inst_setAnimation (u_instance (caches w r)) (u_animationName (caches w r))) FrameTime))]
              \<and> length (frames (caches w' r)) = 1
              \<and> isCompleted (caches w' r)
              \<and> u_frameIdx (caches w' r) = 0)"
proof -
  from bake_unconfigured[OF assms(2-7), of E m] obtain w'
    where "bake_and_end E (Suc m) w r t = Some (Inr w')"
      and "frames (caches w' r) = [Some (render E (inst_updateAnimation (inst_setAnimation (u_instance (caches w r)) (u_animationName (caches w r))) FrameTime))]"
      and "isCompleted (caches w' r)" and "u_frameIdx (caches w' r) = 0" by blast
  moreover from this(2) have "length (frames (caches w' r)) = 1" by simp
  ultimately show ?thesis using setAnimation_unknown[OF assms(1)] by blast
qed

lemma fly_hyps:
  "''fly'' \<notin> name ` set (animations (u_skeletonData (caches fly_world 3)))"
  "u_maxFrameIdex (caches fly_world 3) = 0"
  "u_inited (caches fly_world 3)"
  "u_invalid (caches fly_world 3)"
  "u_skeletonInfo (caches fly_world 3) = Some 0"
  "\<forall>p. curAnimationCache (infos fly_world 0) = Some p \<longrightarrow> u_skeletonInfo (caches fly_world p) = Some 0"
  by (simp_all add: fly_world_eval new_AnimationCache_def hero_def walk_def run_def crawl_def)

lemma fly_frame:
  "render quiet_engine (inst_updateAnimation (inst_setAnimation (u_instance (caches fly_world 3))
      (u_animationName (caches fly_world 3))) FrameTime) = 1"
  by (simp add: inst_updateAnimation_def inst_setAnimation_def)

theorem unknown_animation_bakes_one_frame_witness:
  "''fly'' \<notin> name ` set (animations (u_skeletonData (caches fly_world 3)))
   \<and> u_maxFrameIdex (caches fly_world 3) = 0
   \<and> u_inited (caches fly_world 3)
   \<and> u_invalid (caches fly_world 3)
   \<and> u_skeletonInfo (caches fly_world 3) = Some 0
   \<and> curAnimationCache (infos fly_world 0) = None
   \<and> setAnimation (caches fly_world 3) ''fly'' = (caches fly_world 3, Some ''fly'')
   \<and> (\<exists>w'. bake_and_end quiet_engine (Suc 0) fly_world 3 (Some 5) = Some (Inr w')
              \<and> frames (caches w' 3) = [Some 1]
              \<and> length (frames (caches w' 3)) = 1
              \<and> isCompleted (caches w' 3)
              \<and> u_frameIdx (caches w' 3) = 0)"
proof -
  have t: "case Some (5::int) of None \<Rightarrow> True | Some k \<Rightarrow> 0 \<le> k" by simp
  from unknown_animation_bakes_one_frame[OF fly_hyps t, of quiet_engine 0]
    fly_hyps(1-5) fly_world_eval(2)
  show ?thesis unfolding fly_frame by blast
qed

text \<open>
  The claim as stated, zero frames, fails for "fly": unknown, warned about, maximum
  frame index 0, and after the bake the frames array holds one recorded frame.
\<close>

theorem unknown_animation_counterexample:
  "find_animation (animations (u_skeletonData (caches fly_world 3))) ''fly'' = None
   \<and> warnings fly_world = [''fly'']
   \<and> u_maxFrameIdex (caches fly_world 3) = 0
   \<and> map_option frames (recorder_after (bake_and_end quiet_engine 1 fly_world 3 None) 3) = Some [Some 1]"
proof -
  have t: "case None :: int option of None \<Rightarrow> True | Some k \<Rightarrow> 0 \<le> k" by simp
  from bake_unconfigured[OF fly_hyps(2-6) t, of quiet_engine 0]
  obtain w' where "bake_and_end quiet_engine 1 fly_world 3 None = Some (Inr w')"
    and "frames (caches w' 3) = [Some 1]" unfolding fly_frame by auto
  then show ?thesis
    by (simp add: fly_world_eval new_AnimationCache_def hero_fly)
qed

subsection \<open>The cap\<close>

text \<open>
  A full bake of an invalid recorder whose maximum frame index lies beyond the cap,
  with an engine that never calls the handler. The 1800th pass leaves the elapsed time
  just under 30, so the loop makes one more: it stops after 1801 passes, at frame index
  1800 and with 30.016666666666243 elapsed, and leaves the recorder not completed.
\<close>

lemma bake_capped:
  assumes quiet: "fired E = (\<lambda>_. None)"
    and "u_inited (caches w r)"
    and "u_invalid (caches w r)"
    and "u_skeletonInfo (caches w r) = Some i"
    and "\<forall>p. curAnimationCache (infos w i) = Some p \<longrightarrow> u_skeletonInfo (caches w p) = Some i"
    and cap: "MaxCacheTime \<le> real_of_int (u_maxFrameIdex (caches w r)) * FrameTime"
  shows "\<exists>w2. updateToFrame E (Suc n) w r None = Some (Inr w2)
           \<and> \<not> isCompleted (caches w2 r)
           \<and> totalTime (caches w2 r) = tick_sum 1801
           \<and> u_frameIdx (caches w2 r) = 1800
           \<and> \<not> u_invalid (caches w2 r)
           \<and> u_skeletonInfo (caches w2 r) = Some i
           \<and> u_maxFrameIdex (caches w2 r) = u_maxFrameIdex (caches w r)"
proof -
  have t0: "case None :: int option of None \<Rightarrow> True | Some k \<Rightarrow> 0 \<le> k" by simp
  from updateToFrame_invalid[OF assms(2-5) t0, of E n] obtain w1
    where u: "updateToFrame E (Suc n) w r None = Some (Inr (do_update E w1 r None))"
      and c: "caches w1 r = reset_cache (caches w r)" by blast
  let ?c2 = "caches (do_update E w1 r None) r"
  let ?m = "u_maxFrameIdex (caches w r)"
  from cap have "\<not> real_of_int ?m * FrameTime < MaxCacheTime" by simp
  then have m: "1801 \<le> ?m" by (simp only: cap_frames)
  have j: "isCompleted ?c2 \<longrightarrow> u_frameIdx ?c2 = ?m"
    using do_update_quiet_completed[OF quiet, of w1 r None] c m by simp
  have time: "totalTime ?c2 = tick_sum (nat (u_frameIdx ?c2 + 1))"
    using do_update_ticks[of w1 r E None] c by simp
  have le: "u_frameIdx ?c2 \<le> 1800"
    using do_update_bound[of w1 r E None] c by simp
  with j m have n: "\<not> isCompleted ?c2" by auto
  have "\<not> needToUpdate ?c2 None" by (rule do_update_exit)
  with n have over: "MaxCacheTime \<le> totalTime ?c2" by (simp add: needToUpdate_def)
  have "\<not> u_frameIdx ?c2 + 1 \<le> 1800"
  proof
    assume "u_frameIdx ?c2 + 1 \<le> 1800"
    then have "nat (u_frameIdx ?c2 + 1) \<le> 1800" by simp
    then have "totalTime ?c2 < MaxCacheTime" unfolding time by (rule tick_below_cap)
    with over show False by simp
  qed
  with le have f: "u_frameIdx ?c2 = 1800" by simp
  with time have "totalTime ?c2 = tick_sum 1801" by simp
  moreover have "\<not> u_invalid ?c2" "u_skeletonInfo ?c2 = Some i" "u_maxFrameIdex ?c2 = ?m"
    using c assms(4) by simp_all
  ultimately show ?thesis using u n f by blast
qed

text \<open>
  When the cap cuts the bake short, \<open>end\<close> leaves the 1801 frames recorded and
  completes the recorder.
\<close>

lemma bake_and_end_capped:
  assumes "fired E = (\<lambda>_. None)"
    and "u_inited (caches w r)"
    and "u_invalid (caches w r)"
    and "u_skeletonInfo (caches w r) = Some i"
    and "\<forall>p. curAnimationCache (infos w i) = Some p \<longrightarrow> u_skeletonInfo (caches w p) = Some i"
    and "MaxCacheTime \<le> real_of_int (u_maxFrameIdex (caches w r)) * FrameTime"
  shows "\<exists>w'. bake_and_end E (Suc n) w r None = Some (Inr w')
           \<and> length (frames (caches w' r)) = 1801
           \<and> isCompleted (caches w' r)"
proof -
  from bake_capped[OF assms, of n] obtain w2
    where u: "updateToFrame E (Suc n) w r None = Some (Inr w2)"
      and t: "totalTime (caches w2 r) = tick_sum 1801"
      and f: "u_frameIdx (caches w2 r) = 1800"
      and s: "u_skeletonInfo (caches w2 r) = Some i" by blast
  from t tick_over_cap have "\<not> needToUpdate (caches w2 r) None" by (simp add: needToUpdate_def)
  from cache_end_done[OF this s] f obtain w'
    where "cache_end w2 r = Inr w'"
      and "caches w' r = (caches w2 r)\<lparr>frames := js_set_length (frames (caches w2 r))
                                          (nat (u_frameIdx (caches w2 r) + 1)),
                                        isCompleted := True\<rparr>"
    by auto
  with u f show ?thesis by (simp add: bake_and_end_def)
qed






subsection \<open>begin and the previous recorder\<close>

lemma invalidAllFrame_fields [simp]:
  "u_invalid (invalidAllFrame c) = True"
  "isCompleted (invalidAllFrame c) = False"
  "frames (invalidAllFrame c) = frames c"
  "u_frameIdx (invalidAllFrame c) = u_frameIdx c"
  "totalTime (invalidAllFrame c) = totalTime c"
  "u_skeletonInfo (invalidAllFrame c) = u_skeletonInfo c"
  "u_inited (invalidAllFrame c) = u_inited c"
  "u_maxFrameIdex (invalidAllFrame c) = u_maxFrameIdex c"
  by (simp_all add: invalidAllFrame_def)

text \<open>
  Shared mode, the previous recorder valid and with at least frame 0 recorded:
  \<open>updateToFrame(0)\<close> does nothing to it, and \<open>begin\<close> goes on to reset.
\<close>

lemma cache_begin_shared_started:
  assumes "u_invalid (caches w r)"
    and "u_skeletonInfo (caches w r) = Some i"
    and "curAnimationCache (infos w i) = Some p"
    and "p \<noteq> r"
    and "\<not> u_privateMode (caches w r)"
    and "\<not> u_invalid (caches w p)"
    and "0 \<le> u_frameIdx (caches w p)"
  shows "cache_begin E (Suc n) w r = Some (begin_reset w r)"
proof -
  have "updateToFrame E n w p (Some 0) = Some (Inr w)"
    using assms(6,7) by (subst updateToFrame.simps) (simp add: cache_begin_valid needToUpdate_def)
  then show ?thesis
    using assms(1-5) by (subst cache_begin.simps) simp
qed

text \<open>
  C1, on the code. Skeleton "hero" in shared mode, "walk" (maximum frame index 3)
  current and baked up to frame 1, not completed; \<open>begin\<close> on the invalid "run"
  recorder. The claim has "walk" advanced to completion first. The code calls
  \<open>updateToFrame(0)\<close> on it, which returns at once since frame 0 is recorded: "walk"
  is left exactly as it was, not completed, and "run" is reset and becomes current.
\<close>

theorem begin_shared_leaves_prev_unfinished:
  "curAnimationCache (infos walking_world 0) = Some 0
   \<and> \<not> isCompleted (caches walking_world 0)
   \<and> u_frameIdx (caches walking_world 0) = 1
   \<and> u_maxFrameIdex (caches walking_world 0) = 3
   \<and> u_invalid (caches walking_world 1)
   \<and> \<not> u_privateMode (caches walking_world 1)
   \<and> recorder_after (cache_begin quiet_engine 1 walking_world 1) 0 = Some (caches walking_world 0)
   \<and> map_option isCompleted (recorder_after (cache_begin quiet_engine 1 walking_world 1) 0) = Some False
   \<and> map_option u_frameIdx (recorder_after (cache_begin quiet_engine 1 walking_world 1) 1) = Some (- 1)
   \<and> curAnimationCache (infos (world_of (cache_begin quiet_engine 1 walking_world 1)) 0) = Some 1"
proof -
  have r: "u_invalid (caches walking_world 1)" "u_skeletonInfo (caches walking_world 1) = Some 0"
    "\<not> u_privateMode (caches walking_world 1)"
    using walking_world_eval(10) by (simp_all add: hero_world_eval new_AnimationCache_def)
  have p: "\<not> u_invalid (caches walking_world 0)" "0 \<le> u_frameIdx (caches walking_world 0)"
    by (simp_all add: walking_world_eval)
  have "cache_begin quiet_engine (Suc 0) walking_world 1 = Some (begin_reset walking_world 1)"
    using cache_begin_shared_started[OF r(1,2) walking_world_eval(9) _ r(3) p] by simp
  moreover from begin_reset_bound[OF r(2)] obtain w1
    where "begin_reset walking_world 1 = Inr w1"
      and "caches w1 1 = reset_cache (caches walking_world 1)"
      and "\<forall>q. q \<noteq> 1 \<longrightarrow> caches w1 q = caches walking_world q"
      and "curAnimationCache (infos w1 0) = Some 1" by blast
  ultimately show ?thesis
    using r by (simp add: walking_world_eval world_of_def)
qed

text \<open>
  C5 (as amended). \<open>begin\<close> on an invalid private-mode recorder \<open>r\<close>, while another
  recorder \<open>p\<close> is current: \<open>p\<close> is marked invalid and not completed at once, but its
  frames are kept as they are, not emptied; \<open>r\<close> becomes current. When \<open>p\<close> is bound
  to the same skeleton info, its own next \<open>begin\<close> restarts it from scratch: frame
  index -1, elapsed time 0.
\<close>

theorem begin_private_invalidates_prev:
  assumes "u_invalid (caches w r)"
    and "u_skeletonInfo (caches w r) = Some i"
    and "curAnimationCache (infos w i) = Some p"
    and "p \<noteq> r"
    and "u_privateMode (caches w r)"
    and "u_skeletonInfo (caches w p) = Some i"
  shows "\<exists>w'. cache_begin E n w r = Some (Inr w')
           \<and> caches w' p = invalidAllFrame (caches w p)
           \<and> frames (caches w' p) = frames (caches w p)
           \<and> u_invalid (caches w' p)
           \<and> \<not> isCompleted (caches w' p)
           \<and> curAnimationCache (infos w' i) = Some r
           \<and> (\<exists>w''. cache_begin E (Suc m) w' p = Some (Inr w'')
                  \<and> u_frameIdx (caches w'' p) = - 1
                  \<and> totalTime (caches w'' p) = 0
                  \<and> \<not> isCompleted (caches w'' p)
                  \<and> \<not> u_invalid (caches w'' p)
                  \<and> curAnimationCache (infos w'' i) = Some p)"
proof -
  let ?w0 = "upd_cache w p invalidAllFrame"
  have b: "cache_begin E n w r = Some (begin_reset ?w0 r)"
    using assms(1-5) by (subst cache_begin.simps) simp
  have "u_skeletonInfo (caches ?w0 r) = Some i" using assms(2,4) by simp
  from begin_reset_bound[OF this] obtain w'
    where w': "begin_reset ?w0 r = Inr w'"
      and cr: "caches w' r = reset_cache (caches ?w0 r)"
      and co: "\<forall>q. q \<noteq> r \<longrightarrow> caches w' q = caches ?w0 q"
      and cur: "curAnimationCache (infos w' i) = Some r" by blast
  from co assms(4) have cp: "caches w' p = invalidAllFrame (caches w p)" by simp
  have inv: "u_invalid (caches w' p)" and sp: "u_skeletonInfo (caches w' p) = Some i"
    using cp assms(6) by simp_all
  have "\<forall>q. curAnimationCache (infos w' i) = Some q \<longrightarrow> u_skeletonInfo (caches w' q) = Some i"
    using cur cr assms(2,4) by simp
  from cache_begin_invalid[OF inv sp this, of E m] obtain w''
    where "cache_begin E (Suc m) w' p = Some (Inr w'')"
      and "caches w'' p = reset_cache (caches w' p)"
      and "curAnimationCache (infos w'' i) = Some p" by blast
  then have "\<exists>w''. cache_begin E (Suc m) w' p = Some (Inr w'')
                  \<and> u_frameIdx (caches w'' p) = - 1
                  \<and> totalTime (caches w'' p) = 0
                  \<and> \<not> isCompleted (caches w'' p)
                  \<and> \<not> u_invalid (caches w'' p)
                  \<and> curAnimationCache (infos w'' i) = Some p"
    by auto
  with b w' cp cur show ?thesis by auto
qed

lemma private_run_hyps:
  "u_invalid (caches private_walking_world 1)"
  "u_skeletonInfo (caches private_walking_world 1) = Some 0"
  "curAnimationCache (infos private_walking_world 0) = Some 0"
  "(0::nat) \<noteq> 1"
  "u_privateMode (caches private_walking_world 1)"
  "u_skeletonInfo (caches private_walking_world 0) = Some 0"
  using private_walking_world_eval(10)
  by (simp_all add: private_walking_world_eval(8,9) private_world_eval new_AnimationCache_def)

theorem begin_private_invalidates_prev_witness:
  "u_invalid (caches private_walking_world 1)
   \<and> u_skeletonInfo (caches private_walking_world 1) = Some 0
   \<and> curAnimationCache (infos private_walking_world 0) = Some 0
   \<and> (0::nat) \<noteq> 1
   \<and> u_privateMode (caches private_walking_world 1)
   \<and> u_skeletonInfo (caches private_walking_world 0) = Some 0
   \<and> (\<exists>w'. cache_begin quiet_engine 0 private_walking_world 1 = Some (Inr w')
           \<and> caches w' 0 = invalidAllFrame (caches private_walking_world 0)
           \<and> frames (caches w' 0) = [Some 1, Some 2]
           \<and> u_invalid (caches w' 0)
           \<and> \<not> isCompleted (caches w' 0)
           \<and> curAnimationCache (infos w' 0) = Some 1
           \<and> (\<exists>w''. cache_begin quiet_engine (Suc 0) w' 0 = Some (Inr w'')
                  \<and> u_frameIdx (caches w'' 0) = - 1
                  \<and> totalTime (caches w'' 0) = 0
                  \<and> \<not> isCompleted (caches w'' 0)
                  \<and> \<not> u_invalid (caches w'' 0)
                  \<and> curAnimationCache (infos w'' 0) = Some 0))"
  using begin_private_invalidates_prev[OF private_run_hyps, of quiet_engine 0 0] private_run_hyps
  by (simp add: private_walking_world_eval(2))

text \<open>
  The claim as stated, frames emptied, fails in the private-mode registry: after
  \<open>begin\<close> on "run", the two frames of "walk" are still there.
\<close>

theorem begin_private_counterexample:
  "curAnimationCache (infos private_walking_world 0) = Some 0
   \<and> u_invalid (caches private_walking_world 1)
   \<and> u_privateMode (caches private_walking_world 1)
   \<and> map_option frames (recorder_after (cache_begin quiet_engine 1 private_walking_world 1) 0)
       = Some [Some 1, Some 2]"
proof -
  let ?w0 = "upd_cache private_walking_world 0 invalidAllFrame"
  have b: "cache_begin quiet_engine 1 private_walking_world 1 = Some (begin_reset ?w0 1)"
    using private_run_hyps by (subst cache_begin.simps) simp
  have "u_skeletonInfo (caches ?w0 1) = Some 0" using private_run_hyps by simp
  from begin_reset_bound[OF this] obtain w'
    where "begin_reset ?w0 1 = Inr w'"
      and "\<forall>q. q \<noteq> 1 \<longrightarrow> caches w' q = caches ?w0 q" by blast
  with b show ?thesis
    using private_run_hyps by (simp add: private_walking_world_eval(2))
qed

subsection \<open>The pool\<close>

lemma poolKey_inject [simp]: "(poolKey uuid a = poolKey uuid b) = (a = b)"
  by (simp add: poolKey_def)

lemma clear_fields [simp]:
  "u_inited (clear c) = False"
  "u_invalid (clear c) = True"
  "isCompleted (clear c) = False"
  "frames (clear c) = frames c"
  "u_frameIdx (clear c) = u_frameIdx c"
  "clear (clear c) = clear c"
  by (simp_all add: clear_def invalidAllFrame_def)

lemma pool_entry_simps [simp]:
  "infos (pool_entry uuid w e) = infos w"
  "next_cache (pool_entry uuid w e) = next_cache w"
  "next_info (pool_entry uuid w e) = next_info w"
  "warnings (pool_entry uuid w e) = warnings w"
  "sc_privateMode (pool_entry uuid w e) = sc_privateMode w"
  "sc_skeletonCache (pool_entry uuid w e) = sc_skeletonCache w"
  "sc_animationPool (pool_entry uuid w e) = AList.update (poolKey uuid (fst e)) (snd e) (sc_animationPool w)"
  "caches (pool_entry uuid w e) = (caches w)(snd e := clear (caches w (snd e)))"
  by (simp_all add: pool_entry_def split: prod.splits)

lemma pool_fold_rest [simp]:
  "infos (foldl (pool_entry uuid) w al) = infos w"
  "next_cache (foldl (pool_entry uuid) w al) = next_cache w"
  "next_info (foldl (pool_entry uuid) w al) = next_info w"
  "warnings (foldl (pool_entry uuid) w al) = warnings w"
  "sc_privateMode (foldl (pool_entry uuid) w al) = sc_privateMode w"
  "sc_skeletonCache (foldl (pool_entry uuid) w al) = sc_skeletonCache w"
  by (induction al arbitrary: w; simp)+

lemma pool_fold_caches:
  "caches (foldl (pool_entry uuid) w al) q
     = (if q \<in> snd ` set al then clear (caches w q) else caches w q)"
  by (induction al arbitrary: w) auto

lemma pool_fold_pool:
  "distinct (map fst al) \<Longrightarrow>
   map_of (sc_animationPool (foldl (pool_entry uuid) w al)) (poolKey uuid a)
     = (case map_of al a of
          Some r \<Rightarrow> Some r
        | None \<Rightarrow> map_of (sc_animationPool w) (poolKey uuid a))"
proof (induction al arbitrary: w)
  case Nil
  then show ?case by simp
next
  case (Cons e al)
  obtain k c where e: "e = (k, c)" by (cases e)
  show ?case
  proof (cases "a = k")
    case True
    with Cons.prems e have "map_of al a = None"
      by (simp add: map_of_eq_None_iff)
    with Cons e True show ?thesis by (simp add: update_conv')
  next
    case False
    with Cons e show ?thesis by (simp add: update_conv' split: option.splits)
  qed
qed

text \<open>Right after \<open>removeSkeleton\<close> there is no skeleton info to attach a recorder to.\<close>

lemma initAnimationCache_removed:
  "map_of (sc_skeletonCache w) uuid = Some i \<Longrightarrow>
   fst (initAnimationCache (removeSkeleton w uuid) uuid data a) = None"
  by (simp add: initAnimationCache_def removeSkeleton_def Let_def delete_conv' split: option.splits)

lemma init_fields [simp]:
  "u_inited (init c i a) = True"
  "u_invalid (init c i a) = u_invalid c"
  "isCompleted (init c i a) = isCompleted c"
  "frames (init c i a) = frames c"
  "u_frameIdx (init c i a) = u_frameIdx c"
  "u_skeletonInfo (init c i a) = Some i"
  by (simp_all add: init_def)

lemma setAnimation_fields [simp]:
  "u_inited (fst (setAnimation c a)) = u_inited c"
  "u_invalid (fst (setAnimation c a)) = u_invalid c"
  "isCompleted (fst (setAnimation c a)) = isCompleted c"
  "frames (fst (setAnimation c a)) = frames c"
  "u_frameIdx (fst (setAnimation c a)) = u_frameIdx c"
  "u_skeletonInfo (fst (setAnimation c a)) = u_skeletonInfo c"
  by (simp_all add: setAnimation_def Let_def split: option.splits)

lemma init_and_set_simps [simp]:
  "caches (init_and_set w r i a) r = fst (setAnimation (init (caches w r) i a) a)"
  "next_cache (init_and_set w r i a) = next_cache w"
  by (simp_all add: init_and_set_def Let_def split: prod.splits option.splits)

text \<open>
  A recorder of skeleton \<open>uuid\<close> goes through the pool: \<open>removeSkeleton\<close>, the
  skeleton info made anew, \<open>initAnimationCache\<close> for the same animation.
\<close>

lemma recycle:
  assumes "map_of (sc_skeletonCache w) uuid = Some i"
    and "map_of (animationsCache (infos w i)) a = Some r"
    and "distinct (map fst (animationsCache (infos w i)))"
    and "res = initAnimationCache (snd (getSkeletonCache (removeSkeleton w uuid) uuid sk)) uuid (Some d) a"
  shows "fst res = Some r"
    and "next_cache (snd res) = next_cache w"
    and "caches (snd res) r = fst (setAnimation (init (init (clear (caches w r)) (next_info w) a) (next_info w) a) a)"
proof -
  let ?w1 = "removeSkeleton w uuid"
  let ?w2 = "snd (getSkeletonCache ?w1 uuid sk)"
  let ?j = "next_info w"
  have r: "r \<in> snd ` set (animationsCache (infos w i))"
    using assms(2) by (metis map_of_SomeD image_eqI snd_conv)
  have w1: "map_of (sc_skeletonCache ?w1) uuid = None"
    "map_of (sc_animationPool ?w1) (poolKey uuid a) = Some r"
    "caches ?w1 r = clear (caches w r)"
    "next_info ?w1 = ?j" "next_cache ?w1 = next_cache w"
    using assms(1,2,3) r
    by (simp_all add: removeSkeleton_def Let_def delete_conv' pool_fold_pool pool_fold_caches)
  have w2: "map_of (sc_skeletonCache ?w2) uuid = Some ?j"
    "animationsCache (infos ?w2 ?j) = []"
    "map_of (sc_animationPool ?w2) (poolKey uuid a) = Some r"
    "caches ?w2 r = clear (caches w r)"
    "next_cache ?w2 = next_cache w"
    using w1 by (simp_all add: getSkeletonCache_def Let_def update_conv')
  show "fst res = Some r" "next_cache (snd res) = next_cache w"
    "caches (snd res) r = fst (setAnimation (init (init (clear (caches w r)) ?j a) ?j a) a)"
    unfolding assms(4) using w2
    by (simp_all add: initAnimationCache_def getRuntimeData_def Let_def)
qed

lemma cache_end_rest:
  assumes "cache_end w r = Inr w'"
  shows "sc_skeletonCache w' = sc_skeletonCache w"
    and "sc_animationPool w' = sc_animationPool w"
    and "next_cache w' = next_cache w"
    and "animationsCache (infos w' j) = animationsCache (infos w j)"
  using assms
  by (auto simp: cache_end_def Let_def unbind_def split: if_splits option.splits)

lemma baked_world_eval:
  "bake_and_end quiet_engine 1 hero_world 0 None = Some (Inr baked_world)"
  "length (frames (caches baked_world 0)) = 4"
  "u_frameIdx (caches baked_world 0) = 3"
  "isCompleted (caches baked_world 0)"
  "sc_skeletonCache baked_world = [(''hero'', 0)]"
  "animationsCache (infos baked_world 0) = [(''walk'', 0), (''run'', 1), (''crawl'', 2)]"
  "next_cache baked_world = 3"
proof -
  have m: "0 \<le> u_maxFrameIdex (caches hero_world 0)" by (simp add: hero_walk_hyps)
  have c: "real_of_int (u_maxFrameIdex (caches hero_world 0)) * FrameTime < MaxCacheTime"
    by (simp add: hero_walk_hyps FrameTime_eq MaxCacheTime_def)
  have t: "case None :: int option of None \<Rightarrow> True | Some k \<Rightarrow> u_maxFrameIdex (caches hero_world 0) \<le> k"
    by simp
  from bake_and_end_length[OF quiet_engine_quiet(1) hero_walk_hyps(1-4) m c t, of 0]
  obtain w' where b: "bake_and_end quiet_engine 1 hero_world 0 None = Some (Inr w')"
    and f: "length (frames (caches w' 0)) = 4" "u_frameIdx (caches w' 0) = 3"
      "isCompleted (caches w' 0)"
    by (auto simp: hero_walk_hyps)
  from b have w': "baked_world = w'" by (simp add: baked_world_def world_of_def)
  have t0: "case None :: int option of None \<Rightarrow> True | Some k \<Rightarrow> 0 \<le> k" by simp
  have "curAnimationCache (infos hero_world 0) = None \<or> curAnimationCache (infos hero_world 0) = Some 0"
    by (simp add: hero_world_eval)
  from updateToFrame_first[OF hero_walk_hyps(1-3) this t0, of quiet_engine 1]
  obtain w1 where u: "updateToFrame quiet_engine 1 hero_world 0 None
        = Some (Inr (do_update quiet_engine w1 0 None))"
    and r: "animationsCache (infos w1 0) = animationsCache (infos hero_world 0)"
      "sc_skeletonCache w1 = sc_skeletonCache hero_world"
      "next_cache w1 = next_cache hero_world" by blast
  from b u have "cache_end (do_update quiet_engine w1 0 None) 0 = Inr w'"
    by (simp add: bake_and_end_def)
  from cache_end_rest[OF this] r
  have "sc_skeletonCache w' = [(''hero'', 0)]"
    "animationsCache (infos w' 0) = [(''walk'', 0), (''run'', 1), (''crawl'', 2)]"
    "next_cache w' = 3"
    by (simp_all add: hero_world_eval)
  with b f w' show
    "bake_and_end quiet_engine 1 hero_world 0 None = Some (Inr baked_world)"
    "length (frames (caches baked_world 0)) = 4"
    "u_frameIdx (caches baked_world 0) = 3"
    "isCompleted (caches baked_world 0)"
    "sc_skeletonCache baked_world = [(''hero'', 0)]"
    "animationsCache (infos baked_world 0) = [(''walk'', 0), (''run'', 1), (''crawl'', 2)]"
    "next_cache baked_world = 3"
    by simp_all
qed

text \<open>
  C6 (as amended). A recorder \<open>r\<close> of skeleton \<open>uuid\<close> for animation \<open>a\<close> (the keys of
  the skeleton's recorder map being distinct), after \<open>removeSkeleton(uuid)\<close>,
  \<open>getSkeletonCache(uuid, ...)\<close> and \<open>initAnimationCache(uuid, data, a)\<close> with runtime
  data present: the call returns \<open>r\<close> itself and constructs no recorder; \<open>r\<close> is
  initialised, invalid and not completed, but its frames and its frame index are what
  they were before the removal.
\<close>

theorem recycled_recorder_state:
  assumes "map_of (sc_skeletonCache w) uuid = Some i"
    and "map_of (animationsCache (infos w i)) a = Some r"
    and "distinct (map fst (animationsCache (infos w i)))"
    and "res = initAnimationCache (snd (getSkeletonCache (removeSkeleton w uuid) uuid sk)) uuid (Some d) a"
  shows "fst res = Some r
       \<and> next_cache (snd res) = next_cache w
       \<and> u_inited (caches (snd res) r)
       \<and> u_invalid (caches (snd res) r)
       \<and> \<not> isCompleted (caches (snd res) r)
       \<and> frames (caches (snd res) r) = frames (caches w r)
       \<and> u_frameIdx (caches (snd res) r) = u_frameIdx (caches w r)"
  using recycle[OF assms] by simp

lemma baked_hyps:
  "map_of (sc_skeletonCache baked_world) ''hero'' = Some 0"
  "map_of (animationsCache (infos baked_world 0)) ''walk'' = Some 0"
  "distinct (map fst (animationsCache (infos baked_world 0)))"
  by (simp_all add: baked_world_eval)

theorem recycled_recorder_state_witness:
  "map_of (sc_skeletonCache baked_world) ''hero'' = Some 0
   \<and> map_of (animationsCache (infos baked_world 0)) ''walk'' = Some 0
   \<and> distinct (map fst (animationsCache (infos baked_world 0)))
   \<and> fst recycled_walk = Some 0
   \<and> next_cache (snd recycled_walk) = next_cache baked_world
   \<and> u_inited (caches (snd recycled_walk) 0)
   \<and> u_invalid (caches (snd recycled_walk) 0)
   \<and> \<not> isCompleted (caches (snd recycled_walk) 0)
   \<and> frames (caches (snd recycled_walk) 0) = frames (caches baked_world 0)
   \<and> u_frameIdx (caches (snd recycled_walk) 0) = u_frameIdx (caches baked_world 0)"
  using recycled_recorder_state[OF baked_hyps recycled_walk_def] baked_hyps by simp

text \<open>
  The claim as stated, frames empty and frame index -1, fails for "walk" baked in full
  before the removal: the recorder comes back from the pool with its four frames and
  frame index 3.
\<close>

theorem recycled_recorder_counterexample:
  "fst recycled_walk = Some 0
   \<and> length (frames (caches (snd recycled_walk) 0)) = 4
   \<and> u_frameIdx (caches (snd recycled_walk) 0) = 3"
  using recycle[OF baked_hyps recycled_walk_def]
  by (simp add: baked_world_eval)

subsection \<open>Destroying pooled recorders\<close>

lemma destroy_entry_simps [simp]:
  "sc_animationPool (destroy_entry w key c) = AList.delete key (sc_animationPool w)"
  "caches (destroy_entry w key c) = (caches w)(c := destory (caches w c))"
  by (simp_all add: destroy_entry_def Let_def)

lemma destory_twice [simp]: "destory (destory c) = destory c"
  by (simp add: destory_def destroySpineInstance_def)

lemma destroy_fold_pool:
  "sc_animationPool
     (foldl (\<lambda>w' (key, animationCache).
               if str_includes key u then destroy_entry w' key animationCache else w') w al)
   = filter (\<lambda>e. \<not> (str_includes (fst e) u \<and> fst e \<in> fst ` set al)) (sc_animationPool w)"
proof (induction al arbitrary: w)
  case Nil
  then show ?case by simp
next
  case (Cons e al)
  obtain k c where e: "e = (k, c)" by (cases e)
  show ?case
  proof (cases "str_includes k u")
    case True
    have "filter (\<lambda>e. \<not> (str_includes (fst e) u \<and> fst e \<in> fst ` set al))
            (filter (\<lambda>(k', _). k \<noteq> k') (sc_animationPool w))
        = filter (\<lambda>e. \<not> (str_includes (fst e) u \<and> (fst e = k \<or> fst e \<in> fst ` set al)))
            (sc_animationPool w)"
      using True by (auto intro: filter_cong)
    with True e show ?thesis by (simp add: Cons.IH AList.delete_eq)
  next
    case False
    have "filter (\<lambda>e. \<not> (str_includes (fst e) u \<and> fst e \<in> fst ` set al)) (sc_animationPool w)
        = filter (\<lambda>e. \<not> (str_includes (fst e) u \<and> (fst e = k \<or> fst e \<in> fst ` set al)))
            (sc_animationPool w)"
      using False by (auto intro: filter_cong)
    with False e show ?thesis by (simp add: Cons.IH)
  qed
qed

text \<open>
  What \<open>destroyCachedAnimations(uuid)\<close> removes from the pool, for a non-empty
  \<open>uuid\<close>: the entries whose key contains \<open>uuid\<close> as a substring.
\<close>

lemma destroyCachedAnimations_pool:
  "u \<noteq> [] \<Longrightarrow>
   sc_animationPool (destroyCachedAnimations w (Some u))
     = filter (\<lambda>e. \<not> str_includes (fst e) u) (sc_animationPool w)"
  by (auto simp: destroyCachedAnimations_def destroy_fold_pool intro: filter_cong)

lemma retired_world_eval:
  "sc_animationPool retired_world = [(''hero#walk'', 0), (''hero#run'', 1), (''hero#crawl'', 2)]"
  by (simp add: retired_world_def removeSkeleton_def hero_world_eval poolKey_def Let_def
      pool_entry_def)

text \<open>
  C9, on the code. The pool holds the three recorders of skeleton "hero";
  \<open>destroyCachedAnimations("he")\<close> is asked for another identity. The claim leaves
  the recorders pooled under "hero" alone. The code tests \<open>key.includes(uuid)\<close>, and
  "he" occurs in "hero#walk", "hero#run" and "hero#crawl": all three recorders are
  destroyed and removed.
\<close>

theorem destroy_by_substring:
  "sc_animationPool retired_world = [(''hero#walk'', 0), (''hero#run'', 1), (''hero#crawl'', 2)]
   \<and> ''he'' \<noteq> ''hero''
   \<and> sc_animationPool (destroyCachedAnimations retired_world (Some ''he'')) = []
   \<and> inst_destroyed (u_instance (caches (destroyCachedAnimations retired_world (Some ''he'')) 0))
   \<and> inst_destroyed (u_instance (caches (destroyCachedAnimations retired_world (Some ''he'')) 1))
   \<and> inst_destroyed (u_instance (caches (destroyCachedAnimations retired_world (Some ''he'')) 2))"
  by (simp add: destroyCachedAnimations_def retired_world_eval str_includes_def sublist_code
      destroy_entry_def Let_def destory_def destroySpineInstance_def)

subsection \<open>Reading frames\<close>

lemma js_rem_nonneg: "0 \<le> a \<Longrightarrow> 0 < b \<Longrightarrow> js_rem a b = Some (a mod b)"
  by (simp add: js_rem_def)

text \<open>
  C4. For a recorder with maximum frame index \<open>m \<ge> 1\<close> and non-negative integers
  \<open>i\<close> and \<open>k\<close>, \<open>getFrame(i)\<close> and \<open>getFrame(i + k*m)\<close> are the same frame, namely
  \<open>frames[i mod m]\<close>. (Whether the recorder is completed plays no role.)
\<close>

theorem getFrame_wrap:
  assumes "1 \<le> u_maxFrameIdex c" and "0 \<le> i" and "0 \<le> k"
  shows "getFrame c i = getFrame c (i + k * u_maxFrameIdex c)
       \<and> getFrame c i = js_get (frames c) (i mod u_maxFrameIdex c)"
proof -
  have "0 \<le> i + k * u_maxFrameIdex c" using assms by simp
  then show ?thesis using assms by (simp add: getFrame_def js_rem_nonneg)
qed

theorem getFrame_wrap_witness:
  "1 \<le> u_maxFrameIdex wrap_example
   \<and> getFrame wrap_example 2 = getFrame wrap_example (2 + 5 * u_maxFrameIdex wrap_example)
   \<and> getFrame wrap_example 2 = Some 12"
proof -
  have m: "u_maxFrameIdex wrap_example = 3" and f: "frames wrap_example = [Some 10, Some 11, Some 12, Some 13]"
    by (simp_all add: wrap_example_def)
  have h: "1 \<le> u_maxFrameIdex wrap_example" by (simp add: m)
  have "js_get (frames wrap_example) (2 mod u_maxFrameIdex wrap_example) = Some 12"
    by (simp add: m f js_get_def)
  with getFrame_wrap[OF h, of 2 5] h show ?thesis by auto
qed

text \<open>
  C10. While the maximum frame index still has its initial value 0, \<open>getFrame(i)\<close>
  is \<open>undefined\<close> for every integer \<open>i\<close>: the remainder by zero is NaN, which
  indexes no element.
\<close>

theorem getFrame_unconfigured:
  "u_maxFrameIdex c = 0 \<Longrightarrow> getFrame c i = None"
  by (simp add: getFrame_def js_rem_def)

theorem getFrame_unconfigured_witness:
  "u_maxFrameIdex ((new_AnimationCache hero)\<lparr>frames := [Some (10::nat)]\<rparr>) = 0
   \<and> getFrame ((new_AnimationCache hero)\<lparr>frames := [Some (10::nat)]\<rparr>) 0 = None"
proof -
  have z: "u_maxFrameIdex ((new_AnimationCache hero)\<lparr>frames := [Some (10::nat)]\<rparr>) = 0"
    by (simp add: new_AnimationCache_def)
  from getFrame_unconfigured[OF z, of 0] z show ?thesis by simp
qed

end
